theory Spec2Isabelle
  imports
    Complex_Main
    "HOL-Library.Multiset"
    "HOL-Library.Sublist"
    "HOL-Library.List_Lexorder"
    "HOL-Library.Option_ord"
begin

section \<open>Taskify: client utilities and task API\<close>

text \<open>
  The development embeds the client utilities of \<^verbatim>\<open>frontend/src/utils/helpers.js\<close>
  and \<^verbatim>\<open>constants.js\<close>, the Mongoose task model, the task controller, the two Express
  routers and the axios response interceptor.

  Conventions. A date is the integer time value that \<^verbatim>\<open>new Date(...)\<close> yields
  (milliseconds since the epoch), so every date of the model is a valid date;
  \<^verbatim>\<open>undefined\<close> and \<^verbatim>\<open>null\<close> are \<^term>\<open>None\<close> where the code does not tell them
  apart.
\<close>

subsection \<open>Strings\<close>

text \<open>
  A JavaScript string is the list of its UTF-16 code units. The operators \<^verbatim>\<open><\<close> and
  \<^verbatim>\<open>>\<close> compare two strings lexicographically by code unit, which is the order of
  lists of numbers. \<^term>\<open>str\<close> gives the code units of a literal of ASCII characters.
  Texts that the code only passes on (messages, storage keys, locations) are kept as they
  are written.
\<close>

type_synonym js_string = "nat list"

definition str :: "string \<Rightarrow> js_string" where
  "str s = map of_char s"

text \<open>
  \<^verbatim>\<open>String.prototype.toLowerCase\<close> converts by the case mappings of the Unicode
  standard the engine implements; it is a parameter, named \<^verbatim>\<open>toLowerCase\<close>, of every
  function that calls it. On a string of ASCII characters it is
  \<^term>\<open>ascii_toLowerCase\<close>, which the instances below take.
\<close>

definition ascii_toLowerCase :: "js_string \<Rightarrow> js_string" where
  "ascii_toLowerCase s = map (\<lambda>c. if 0x41 \<le> c \<and> c \<le> 0x5A then c + 0x20 else c) s"

text \<open>
  \<^verbatim>\<open>String.prototype.trim\<close> removes leading and trailing white space and line
  terminators: TAB, LF, VT, FF, CR, the space, the no-break space, the other space
  separators of Unicode (U+1680, U+2000 to U+200A, U+202F, U+205F, U+3000), the line and
  paragraph separators and the byte order mark.
\<close>

definition is_space :: "nat \<Rightarrow> bool" where
  "is_space c \<longleftrightarrow>
     c \<in> set ([0x9, 0xA, 0xB, 0xC, 0xD, 0x20, 0xA0, 0x1680] @ [0x2000 ..< 0x200B] @
              [0x2028, 0x2029, 0x202F, 0x205F, 0x3000, 0xFEFF])"

definition trim :: "js_string \<Rightarrow> js_string" where
  "trim s = rev (dropWhile is_space (rev (dropWhile is_space s)))"

text \<open>\<^verbatim>\<open>join\<close> and \<^verbatim>\<open>includes\<close> are the array and string methods of these names.\<close>

fun join :: "js_string \<Rightarrow> js_string list \<Rightarrow> js_string" where
  "join sep [] = []"
| "join sep [x] = x"
| "join sep (x # y # ys) = x @ sep @ join sep (y # ys)"

fun str_includes :: "js_string \<Rightarrow> js_string \<Rightarrow> bool" where
  "str_includes [] t = (t = [])"
| "str_includes (c # s) t = (prefix t (c # s) \<or> str_includes s t)"

text \<open>A missing string and the empty string are falsy.\<close>

fun is_truthy :: "js_string option \<Rightarrow> bool" where
  "is_truthy None = False"
| "is_truthy (Some s) = (s \<noteq> [])"

subsection \<open>constants.js\<close>

record option_info =
  opt_value :: js_string
  opt_label :: js_string
  opt_icon :: js_string
  opt_color :: js_string

text \<open>The icons are emoji outside the basic plane, each a pair of surrogate code units.\<close>

definition TASK_CATEGORIES :: "option_info list" where
  "TASK_CATEGORIES =
    [\<lparr>opt_value = str ''work'', opt_label = str ''Work'',
        opt_icon = [0xD83D, 0xDCBC], opt_color = str ''blue''\<rparr>,
     \<lparr>opt_value = str ''personal'', opt_label = str ''Personal'',
        opt_icon = [0xD83D, 0xDC64], opt_color = str ''purple''\<rparr>,
     \<lparr>opt_value = str ''health'', opt_label = str ''Health'',
        opt_icon = [0xD83C, 0xDFE5], opt_color = str ''green''\<rparr>,
     \<lparr>opt_value = str ''finance'', opt_label = str ''Finance'',
        opt_icon = [0xD83D, 0xDCB0], opt_color = str ''yellow''\<rparr>,
     \<lparr>opt_value = str ''shopping'', opt_label = str ''Shopping'',
        opt_icon = [0xD83D, 0xDED2], opt_color = str ''pink''\<rparr>,
     \<lparr>opt_value = str ''education'', opt_label = str ''Education'',
        opt_icon = [0xD83D, 0xDCDA], opt_color = str ''lime''\<rparr>,
     \<lparr>opt_value = str ''other'', opt_label = str ''Other'',
        opt_icon = [0xD83D, 0xDCDD], opt_color = str ''gray''\<rparr>]"

definition TASK_PRIORITIES :: "option_info list" where
  "TASK_PRIORITIES =
    [\<lparr>opt_value = str ''low'', opt_label = str ''Low'',
        opt_icon = [0xD83D, 0xDFE2], opt_color = str ''green''\<rparr>,
     \<lparr>opt_value = str ''medium'', opt_label = str ''Medium'',
        opt_icon = [0xD83D, 0xDFE1], opt_color = str ''yellow''\<rparr>,
     \<lparr>opt_value = str ''high'', opt_label = str ''High'',
        opt_icon = [0xD83D, 0xDD34], opt_color = str ''red''\<rparr>,
     \<lparr>opt_value = str ''urgent'', opt_label = str ''Urgent'',
        opt_icon = [0xD83D, 0xDEA8], opt_color = str ''pink''\<rparr>]"

text \<open>\<^verbatim>\<open>SORT_OPTIONS\<close>: the six keys the sort menu offers.\<close>

datatype sort_option = CreatedAt | UpdatedAt | Title | Priority | DueDate | Category

subsection \<open>Category and priority lookups (helpers.js)\<close>

text \<open>
  \<^verbatim>\<open>TASK_CATEGORIES.find(cat => cat.value === category) || TASK_CATEGORIES[6]\<close>:
  \<^verbatim>\<open>find\<close> yields the first matching entry or \<^verbatim>\<open>undefined\<close>; the index 6 is inside
  the constant table.
\<close>

definition getCategoryInfo :: "js_string \<Rightarrow> option_info" where
  "getCategoryInfo category =
     (case find (\<lambda>cat. opt_value cat = category) TASK_CATEGORIES of
        Some cat \<Rightarrow> cat
      | None \<Rightarrow> TASK_CATEGORIES ! 6)"

definition getPriorityInfo :: "js_string \<Rightarrow> option_info" where
  "getPriorityInfo priority =
     (case find (\<lambda>p. opt_value p = priority) TASK_PRIORITIES of
        Some p \<Rightarrow> p
      | None \<Rightarrow> TASK_PRIORITIES ! 1)"

text \<open>
  \<^verbatim>\<open>getPriorityValue\<close> indexes the object literal
  \<^verbatim>\<open>{ low: 1, medium: 2, high: 3, urgent: 4 }\<close> with the priority string. A property
  read on an object literal looks at the object's own properties and then at its prototype,
  \<^verbatim>\<open>Object.prototype\<close>, whose properties are functions (and the accessor
  \<^verbatim>\<open>__proto__\<close>, which yields the prototype object). So the value read is a number, an
  inherited object, or \<^verbatim>\<open>undefined\<close>.
\<close>

datatype jsval = Num int | Inherited js_string

definition Object_prototype_keys :: "js_string list" where
  "Object_prototype_keys =
     map str
       [''constructor'', ''__defineGetter__'', ''__defineSetter__'', ''hasOwnProperty'',
        ''__lookupGetter__'', ''__lookupSetter__'', ''isPrototypeOf'', ''propertyIsEnumerable'',
        ''toString'', ''valueOf'', ''__proto__'', ''toLocaleString'']"

definition get_property :: "(js_string \<times> int) list \<Rightarrow> js_string \<Rightarrow> jsval option" where
  "get_property obj k =
     (case map_of obj k of
        Some n \<Rightarrow> Some (Num n)
      | None \<Rightarrow> if k \<in> set Object_prototype_keys then Some (Inherited k) else None)"

fun truthy :: "jsval \<Rightarrow> bool" where
  "truthy (Num n) = (n \<noteq> 0)"
| "truthy (Inherited k) = True"

definition priorities :: "(js_string \<times> int) list" where
  "priorities = [(str ''low'', 1), (str ''medium'', 2), (str ''high'', 3), (str ''urgent'', 4)]"

definition getPriorityValue :: "js_string \<Rightarrow> jsval" where
  "getPriorityValue priority =
     (case get_property priorities priority of
        Some v \<Rightarrow> if truthy v then v else Num 2
      | None \<Rightarrow> Num 2)"

text \<open>
  The relational operator \<^verbatim>\<open><\<close> on two such values: two numbers compare numerically;
  two objects are converted to their primitive strings and compare as strings; a number
  against an object converts the object's string to a number, which is \<^verbatim>\<open>NaN\<close>, and
  every comparison with \<^verbatim>\<open>NaN\<close> is false. The primitive string of a native function
  is its source text, which carries the function's name: the property
  \<^verbatim>\<open>constructor\<close> holds the function \<^verbatim>\<open>Object\<close>, every other function
  property of \<^verbatim>\<open>Object.prototype\<close> holds a function named as the property; the
  accessor \<^verbatim>\<open>__proto__\<close> yields the prototype object, whose string is
  \<^verbatim>\<open>[object Object]\<close>.
\<close>

definition to_primitive :: "js_string \<Rightarrow> js_string" where
  "to_primitive k =
     (if k = str ''__proto__'' then str ''[object Object]''
      else if k = str ''constructor'' then str ''function Object() { [native code] }''
      else str ''function '' @ k @ str ''() { [native code] }'')"

fun js_less :: "jsval \<Rightarrow> jsval \<Rightarrow> bool" where
  "js_less (Num a) (Num b) = (a < b)"
| "js_less (Inherited j) (Inherited k) = (to_primitive j < to_primitive k)"
| "js_less _ _ = False"

subsection \<open>Tasks\<close>

text \<open>
  A task as the Mongoose schema declares it and as the client receives it as JSON. The
  client reads \<^verbatim>\<open>title\<close>, \<^verbatim>\<open>description\<close> and \<^verbatim>\<open>tags\<close> with
  \<^verbatim>\<open>?.\<close>, so these may be absent; \<^verbatim>\<open>dueDate\<close> and \<^verbatim>\<open>completedAt\<close>
  default to \<^verbatim>\<open>null\<close>. The schema's \<^verbatim>\<open>attachments\<close> array is read and written by
  none of the functions embedded here and is left out. (\<^verbatim>\<open>task_id\<close> is \<^verbatim>\<open>_id\<close>;
  the fields of a subtask carry the prefix \<^verbatim>\<open>st_\<close>.)
\<close>

record subTask =
  st_title :: js_string
  st_isDone :: bool
  st_createdAt :: int

record task =
  task_id :: nat
  userId :: nat
  title :: "js_string option"
  description :: "js_string option"
  category :: js_string
  isDone :: bool
  priority :: js_string
  dueDate :: "int option"
  completedAt :: "int option"
  tags :: "js_string list option"
  subTasks :: "subTask list"
  createdAt :: int
  updatedAt :: int

text \<open>
  The \<^verbatim>\<open>filters\<close> object of \<^verbatim>\<open>filterTasks\<close>; its fields carry the prefix
  \<^verbatim>\<open>filter_\<close>.
\<close>

record filters =
  filter_status :: "js_string option"
  filter_category :: "js_string option"
  filter_priority :: "js_string option"
  filter_search :: "js_string option"

subsection \<open>filterTasks\<close>

text \<open>
  \<^verbatim>\<open>x?.toLowerCase() || ''\<close> and \<^verbatim>\<open>task.tags?.join(' ').toLowerCase() || ''\<close>.
\<close>

definition lowered :: "(js_string \<Rightarrow> js_string) \<Rightarrow> js_string option \<Rightarrow> js_string" where
  "lowered toLowerCase v = (case v of None \<Rightarrow> [] | Some s \<Rightarrow> toLowerCase s)"

definition lowered_tags ::
  "(js_string \<Rightarrow> js_string) \<Rightarrow> js_string list option \<Rightarrow> js_string" where
  "lowered_tags toLowerCase v =
     (case v of None \<Rightarrow> [] | Some ts \<Rightarrow> toLowerCase (join (str '' '') ts))"

text \<open>
  The callback of \<^verbatim>\<open>tasks.filter\<close>, with the early returns of the source in their
  order. (\<^term>\<open>the\<close> is applied to the search term only where it is truthy.)
\<close>

definition filter_callback :: "(js_string \<Rightarrow> js_string) \<Rightarrow> filters \<Rightarrow> task \<Rightarrow> bool" where
  "filter_callback toLowerCase filters task =
     (if is_truthy (filter_status filters) \<and> filter_status filters \<noteq> Some (str ''all'') \<and>
         ((filter_status filters = Some (str ''pending'') \<and> isDone task) \<or>
          (filter_status filters = Some (str ''completed'') \<and> \<not> isDone task))
      then False
      else if is_truthy (filter_category filters) \<and>
         filter_category filters \<noteq> Some (str ''all'') \<and>
         Some (category task) \<noteq> filter_category filters
      then False
      else if is_truthy (filter_priority filters) \<and>
         filter_priority filters \<noteq> Some (str ''all'') \<and>
         Some (priority task) \<noteq> filter_priority filters
      then False
      else if is_truthy (filter_search filters) \<and>
         (let searchTerm = toLowerCase (the (filter_search filters));
              title = lowered toLowerCase (title task);
              description = lowered toLowerCase (description task);
              tags = lowered_tags toLowerCase (tags task)
          in \<not> str_includes title searchTerm \<and> \<not> str_includes description searchTerm \<and>
             \<not> str_includes tags searchTerm)
      then False
      else True)"

definition filterTasks ::
  "(js_string \<Rightarrow> js_string) \<Rightarrow> task list \<Rightarrow> filters \<Rightarrow> task list" where
  "filterTasks toLowerCase tasks filters = filter (filter_callback toLowerCase filters) tasks"

text \<open>
  The predicate of the specification, in its words and with none of the functions above:
  the conjunction of the status, category, priority and search conditions. A filter is
  \<^emph>\<open>set\<close> when it is present and not the empty string. The tags joined by spaces are
  every tag preceded by a space, without the first space. One string is a substring of
  another when it is a contiguous part of it (\<^term>\<open>sublist\<close>); a missing title,
  description or tag list counts as the empty string.
\<close>

definition space_joined :: "js_string list \<Rightarrow> js_string" where
  "space_joined ts = drop 1 (concat (map (\<lambda>tag. 0x20 # tag) ts))"

definition satisfies_filters :: "(js_string \<Rightarrow> js_string) \<Rightarrow> filters \<Rightarrow> task \<Rightarrow> bool" where
  "satisfies_filters lc f t \<longleftrightarrow>
     (filter_status f = Some (str ''pending'') \<longrightarrow> \<not> isDone t) \<and>
     (filter_status f = Some (str ''completed'') \<longrightarrow> isDone t) \<and>
     (case filter_category f of
        Some c \<Rightarrow> c \<noteq> [] \<and> c \<noteq> str ''all'' \<longrightarrow> category t = c
      | None \<Rightarrow> True) \<and>
     (case filter_priority f of
        Some p \<Rightarrow> p \<noteq> [] \<and> p \<noteq> str ''all'' \<longrightarrow> priority t = p
      | None \<Rightarrow> True) \<and>
     (case filter_search f of
        Some s \<Rightarrow> s \<noteq> [] \<longrightarrow>
          sublist (lc s) (case title t of None \<Rightarrow> [] | Some x \<Rightarrow> lc x) \<or>
          sublist (lc s) (case description t of None \<Rightarrow> [] | Some x \<Rightarrow> lc x) \<or>
          sublist (lc s) (case tags t of None \<Rightarrow> [] | Some ts \<Rightarrow> lc (space_joined ts))
      | None \<Rightarrow> True)"

subsection \<open>sortTasks\<close>

text \<open>The time value of \<^verbatim>\<open>new Date('9999-12-31')\<close> (midnight UTC).\<close>

definition sentinel_date :: int where
  "sentinel_date = 253402214400000"

text \<open>
  \<^verbatim>\<open>Array.prototype.sort\<close> with a comparator is a stable sort (ECMAScript 2019): for
  a consistent comparator its result is the one a stable insertion sort gives, which is how
  it is modelled; for an inconsistent comparator the language leaves the order to the
  implementation.
\<close>

fun insert_by :: "('a \<Rightarrow> 'a \<Rightarrow> int) \<Rightarrow> 'a \<Rightarrow> 'a list \<Rightarrow> 'a list" where
  "insert_by cmp x [] = [x]"
| "insert_by cmp x (y # ys) = (if cmp x y \<le> 0 then x # y # ys else y # insert_by cmp x ys)"

definition array_sort :: "('a \<Rightarrow> 'a \<Rightarrow> int) \<Rightarrow> 'a list \<Rightarrow> 'a list" where
  "array_sort cmp xs = foldr (insert_by cmp) xs []"

text \<open>
  The comparator of \<^verbatim>\<open>sortTasks\<close>. \<^term>\<open>sort_values\<close> computes
  \<^verbatim>\<open>aValue < bValue\<close> and \<^verbatim>\<open>aValue > bValue\<close> for the values the chosen
  key gives.
\<close>

definition due_value :: "int option \<Rightarrow> int" where
  "due_value v = (case v of Some d \<Rightarrow> d | None \<Rightarrow> sentinel_date)"

definition sort_values ::
  "(js_string \<Rightarrow> js_string) \<Rightarrow> sort_option \<Rightarrow> task \<Rightarrow> task \<Rightarrow> bool \<times> bool" where
  "sort_values toLowerCase sortBy a b =
     (case sortBy of
        Priority \<Rightarrow>
          (let aValue = getPriorityValue (priority a); bValue = getPriorityValue (priority b)
           in (js_less aValue bValue, js_less bValue aValue))
      | Title \<Rightarrow>
          (let aValue = lowered toLowerCase (title a); bValue = lowered toLowerCase (title b)
           in (aValue < bValue, bValue < aValue))
      | DueDate \<Rightarrow>
          (let aValue = due_value (dueDate a); bValue = due_value (dueDate b)
           in (aValue < bValue, bValue < aValue))
      | CreatedAt \<Rightarrow> (createdAt a < createdAt b, createdAt b < createdAt a)
      | UpdatedAt \<Rightarrow> (updatedAt a < updatedAt b, updatedAt b < updatedAt a)
      | Category \<Rightarrow> (category a < category b, category b < category a))"

definition compare_tasks ::
  "(js_string \<Rightarrow> js_string) \<Rightarrow> sort_option \<Rightarrow> js_string \<Rightarrow> task \<Rightarrow> task \<Rightarrow> int" where
  "compare_tasks toLowerCase sortBy sortOrder a b =
     (let (lt, gt) = sort_values toLowerCase sortBy a b
      in if lt then (if sortOrder = str ''asc'' then - 1 else 1)
         else if gt then (if sortOrder = str ''asc'' then 1 else - 1)
         else 0)"

definition sortTasks ::
  "(js_string \<Rightarrow> js_string) \<Rightarrow> task list \<Rightarrow> sort_option \<Rightarrow> js_string \<Rightarrow> task list" where
  "sortTasks toLowerCase tasks sortBy sortOrder =
     array_sort (compare_tasks toLowerCase sortBy sortOrder) tasks"

text \<open>
  The order of the specification, in its words and with none of the functions of the
  comparator: priority by its numeric rank; titles case-insensitively, which is the order
  of the lower-cased titles, a missing title counting as the empty string; a missing due
  date as 9999-12-31 (midnight UTC).
\<close>

definition priority_rank :: "js_string \<Rightarrow> int" where
  "priority_rank p =
     (if p = str ''low'' then 1
      else if p = str ''high'' then 3
      else if p = str ''urgent'' then 4
      else 2)"

definition key_le :: "(js_string \<Rightarrow> js_string) \<Rightarrow> sort_option \<Rightarrow> task \<Rightarrow> task \<Rightarrow> bool" where
  "key_le lc sortBy a b =
     (case sortBy of
        CreatedAt \<Rightarrow> createdAt a \<le> createdAt b
      | UpdatedAt \<Rightarrow> updatedAt a \<le> updatedAt b
      | Title \<Rightarrow>
          (case title a of None \<Rightarrow> [] | Some s \<Rightarrow> lc s) \<le>
          (case title b of None \<Rightarrow> [] | Some s \<Rightarrow> lc s)
      | Priority \<Rightarrow> priority_rank (priority a) \<le> priority_rank (priority b)
      | DueDate \<Rightarrow>
          (case dueDate a of None \<Rightarrow> 253402214400000 | Some d \<Rightarrow> d) \<le>
          (case dueDate b of None \<Rightarrow> 253402214400000 | Some d \<Rightarrow> d)
      | Category \<Rightarrow> category a \<le> category b)"

subsection \<open>Numbers\<close>

text \<open>
  \<^verbatim>\<open>getTaskStats\<close> computes \<^verbatim>\<open>Math.round((completed / total) * 100)\<close> in
  IEEE 754 double precision. A non-negative finite double is represented by a fraction
  (numerator, denominator) of naturals. \<^term>\<open>to_double n d\<close> is the double nearest to
  \<^term>\<open>n / d\<close> (round to nearest, ties to even, 53-bit significand); exponent overflow
  and subnormal numbers lie outside the range of array lengths and are not modelled, and
  the divisor is positive wherever the code divides. \<^term>\<open>ilog2 n d\<close> is the binary
  exponent of \<^term>\<open>n / d\<close>.
\<close>

fun bit_length :: "nat \<Rightarrow> nat" where
  "bit_length n = (if n = 0 then 0 else Suc (bit_length (n div 2)))"

declare bit_length.simps [simp del]

definition ilog2 :: "nat \<Rightarrow> nat \<Rightarrow> int" where
  "ilog2 n d =
     (let k = int (bit_length n) - int (bit_length d)
      in if (if 0 \<le> k then d * 2 ^ nat k \<le> n else d \<le> n * 2 ^ nat (- k)) then k else k - 1)"

definition round_half_even :: "nat \<Rightarrow> nat \<Rightarrow> nat" where
  "round_half_even n d =
     (let q = n div d; r = n mod d
      in if 2 * r < d then q
         else if d < 2 * r then q + 1
         else if even q then q else q + 1)"

definition to_double :: "nat \<Rightarrow> nat \<Rightarrow> nat \<times> nat" where
  "to_double n d =
     (if n = 0 then (0, 1)
      else let s = 52 - ilog2 n d
           in if 0 \<le> s then (round_half_even (n * 2 ^ nat s) d, 2 ^ nat s)
              else (round_half_even n (d * 2 ^ nat (- s)) * 2 ^ nat (- s), 1))"

text \<open>
  Division and multiplication round their exact result; \<^verbatim>\<open>Math.round\<close> rounds to
  the nearest integer, a half towards \<open>+\<infinity>\<close>.
\<close>

type_synonym double = "nat \<times> nat"

definition double_div :: "nat \<Rightarrow> nat \<Rightarrow> double" where
  "double_div a b = to_double a b"

definition double_mul :: "double \<Rightarrow> nat \<Rightarrow> double" where
  "double_mul x k = to_double (fst x * k) (snd x)"

definition Math_round :: "nat \<times> nat \<Rightarrow> nat" where
  "Math_round x = (2 * fst x + snd x) div (2 * snd x)"

text \<open>The real number a double stands for.\<close>

definition dval :: "nat \<times> nat \<Rightarrow> real" where
  "dval x = real (fst x) / real (snd x)"

subsection \<open>isOverdue and getTaskStats\<close>

text \<open>
  \<^verbatim>\<open>new Date()\<close> reads the clock; the current time is the argument \<open>now\<close>, one
  time for a whole call. (The field \<^verbatim>\<open>total'\<close> is \<^verbatim>\<open>total\<close>.)
\<close>

definition isOverdue :: "int \<Rightarrow> int option \<Rightarrow> bool" where
  "isOverdue now due = (case due of None \<Rightarrow> False | Some d \<Rightarrow> d < now)"

record task_stats =
  total' :: nat
  completed :: nat
  pending :: nat
  overdue :: nat
  completionRate :: nat

definition getTaskStats :: "int \<Rightarrow> task list \<Rightarrow> task_stats" where
  "getTaskStats now tasks =
     (let n_total = length tasks;
          n_completed = length (filter isDone tasks);
          n_pending = n_total - n_completed;
          n_overdue =
            length (filter (\<lambda>task. \<not> isDone task \<and> isOverdue now (dueDate task)) tasks);
          rate =
            (if 0 < n_total then Math_round (double_mul (double_div n_completed n_total) 100)
             else 0)
      in \<lparr>total' = n_total, completed = n_completed, pending = n_pending, overdue = n_overdue,
          completionRate = rate\<rparr>)"

subsection \<open>The three utilities on the JavaScript heap\<close>

text \<open>
  Arrays are mutable objects. The heap maps the address of an array to its elements;
  addresses below \<^verbatim>\<open>next_addr\<close> are allocated; \<^verbatim>\<open>clock\<close> is what
  \<^verbatim>\<open>new Date()\<close> reads. \<^verbatim>\<open>[...tasks]\<close> and \<^verbatim>\<open>tasks.filter(...)\<close> allocate a
  new array; \<^verbatim>\<open>sort\<close> sorts the array it is called on in place.
\<close>

record js_env =
  heap :: "nat \<Rightarrow> task list"
  next_addr :: nat
  clock :: int

definition alloc :: "js_env \<Rightarrow> task list \<Rightarrow> nat \<times> js_env" where
  "alloc env xs =
     (next_addr env,
      env\<lparr>heap := (heap env)(next_addr env := xs), next_addr := Suc (next_addr env)\<rparr>)"

definition sort_in_place :: "(task \<Rightarrow> task \<Rightarrow> int) \<Rightarrow> nat \<Rightarrow> js_env \<Rightarrow> js_env" where
  "sort_in_place cmp a env = env\<lparr>heap := (heap env)(a := array_sort cmp (heap env a))\<rparr>"

definition filterTasks_heap ::
  "(js_string \<Rightarrow> js_string) \<Rightarrow> js_env \<Rightarrow> nat \<Rightarrow> filters \<Rightarrow> nat \<times> js_env" where
  "filterTasks_heap toLowerCase env tasks filters =
     alloc env (filter (filter_callback toLowerCase filters) (heap env tasks))"

definition sortTasks_heap ::
  "(js_string \<Rightarrow> js_string) \<Rightarrow> js_env \<Rightarrow> nat \<Rightarrow> sort_option \<Rightarrow> js_string \<Rightarrow> nat \<times> js_env" where
  "sortTasks_heap toLowerCase env tasks sortBy sortOrder =
     (let (sortedTasks, env1) = alloc env (heap env tasks);
          env2 = sort_in_place (compare_tasks toLowerCase sortBy sortOrder) sortedTasks env1
      in (sortedTasks, env2))"

definition getTaskStats_heap :: "js_env \<Rightarrow> nat \<Rightarrow> task_stats \<times> js_env" where
  "getTaskStats_heap env tasks =
     (let n_total = length (heap env tasks);
          (done, env1) = alloc env (filter isDone (heap env tasks));
          n_completed = length (heap env1 done);
          n_pending = n_total - n_completed;
          (late, env2) =
            alloc env1
              (filter (\<lambda>task. \<not> isDone task \<and> isOverdue (clock env1) (dueDate task))
                 (heap env1 tasks));
          n_overdue = length (heap env2 late);
          rate =
            (if 0 < n_total then Math_round (double_mul (double_div n_completed n_total) 100)
             else 0)
      in (\<lparr>total' = n_total, completed = n_completed, pending = n_pending, overdue = n_overdue,
           completionRate = rate\<rparr>, env2))"

text \<open>
  The array a call returns, and the statement that a call left every array that existed
  before it as it was.
\<close>

definition contents :: "nat \<times> js_env \<Rightarrow> task list" where
  "contents r = heap (snd r) (fst r)"

definition unchanged :: "js_env \<Rightarrow> js_env \<Rightarrow> bool" where
  "unchanged env env' \<longleftrightarrow> (\<forall>a < next_addr env. heap env' a = heap env a)"

subsection \<open>The Task model: hooks, methods and statics\<close>

text \<open>
  Mongoose's errors, as far as the controllers tell them apart.
\<close>

datatype mongoose_error = CastError | ValidationError "string list"

text \<open>
  Validation is the first step of \<^verbatim>\<open>save\<close>: Mongoose runs the validators that the schema
  declares on the document, on the paths that were loaded from the database as on the
  paths that were set (neither the schema nor a call of \<^verbatim>\<open>save\<close> sets
  \<^verbatim>\<open>validateModifiedOnly\<close>). The validation is a parameter of the model: a validator
  maps the current time and a document to the list of validation messages, the empty list
  when the document is valid. \<^verbatim>\<open>dueDate_validator\<close> is the validator that the schema
  declares for \<^verbatim>\<open>dueDate\<close>, \<^verbatim>\<open>!value || value > new Date()\<close>; a date is an
  object and so truthy. The schema declares further validators (required title and
  category, maximal lengths, the values of category and priority).
\<close>

type_synonym validator = "int \<Rightarrow> task \<Rightarrow> string list"

definition dueDate_validator :: validator where
  "dueDate_validator now this =
     (case dueDate this of
        None \<Rightarrow> []
      | Some v \<Rightarrow> if now < v then [] else [''Due date must be in the future''])"

text \<open>
  The \<^verbatim>\<open>pre('save')\<close> middleware; \<^verbatim>\<open>this.isModified('isDone')\<close> is its second argument.
\<close>

definition pre_save :: "int \<Rightarrow> bool \<Rightarrow> task \<Rightarrow> task" where
  "pre_save now isDone_modified this =
     (if isDone_modified
      then (if isDone this \<and> completedAt this = None then this\<lparr>completedAt := Some now\<rparr>
            else if \<not> isDone this then this\<lparr>completedAt := None\<rparr>
            else this)
      else this)"

text \<open>
  The collection is the list of its documents. \<^verbatim>\<open>save\<close> of a document that was loaded as
  \<open>loaded\<close> and now reads \<open>this\<close>: validation, the hook, the timestamp of a modified
  document, and the write to the document with this \<^verbatim>\<open>_id\<close>.
\<close>

definition save ::
  "validator \<Rightarrow> int \<Rightarrow> task list \<Rightarrow> task \<Rightarrow> task \<Rightarrow> mongoose_error + task \<times> task list" where
  "save validate now db loaded this =
     (case validate now this of
        [] \<Rightarrow>
          (let this1 = pre_save now (isDone this \<noteq> isDone loaded) this;
               this2 = (if this \<noteq> loaded then this1\<lparr>updatedAt := now\<rparr> else this1)
           in Inr (this2, map (\<lambda>t. if task_id t = task_id this2 then this2 else t) db))
      | m # ms \<Rightarrow> Inl (ValidationError (m # ms)))"

text \<open>
  \<^verbatim>\<open>save\<close> of a new document inserts it. The controller gives a new document no
  \<^verbatim>\<open>isDone\<close>, so the path holds its default and is not modified.
\<close>

definition save_new ::
  "validator \<Rightarrow> int \<Rightarrow> task list \<Rightarrow> task \<Rightarrow> mongoose_error + task \<times> task list" where
  "save_new validate now db this =
     (case validate now this of
        [] \<Rightarrow> (let this1 = pre_save now False this in Inr (this1, db @ [this1]))
      | m # ms \<Rightarrow> Inl (ValidationError (m # ms)))"

definition toggleCompletion ::
  "validator \<Rightarrow> int \<Rightarrow> task list \<Rightarrow> task \<Rightarrow> mongoose_error + task \<times> task list" where
  "toggleCompletion validate now db this =
     save validate now db this (this\<lparr>isDone := \<not> isDone this\<rparr>)"

text \<open>The schema trims the title of a subtask.\<close>

definition addSubTask_method ::
  "validator \<Rightarrow> int \<Rightarrow> task list \<Rightarrow> task \<Rightarrow> js_string \<Rightarrow>
     mongoose_error + task \<times> task list" where
  "addSubTask_method validate now db this t =
     save validate now db this
       (this\<lparr>subTasks := subTasks this @
          [\<lparr>st_title = trim t, st_isDone = False, st_createdAt = now\<rparr>]\<rparr>)"

text \<open>
  The queries. An id is unique in a collection, so \<^verbatim>\<open>findOne\<close> by id and user finds the
  one document there is.
\<close>

definition findOne :: "task list \<Rightarrow> nat \<Rightarrow> nat \<Rightarrow> task option" where
  "findOne db i u = find (\<lambda>t. task_id t = i \<and> userId t = u) db"

definition findOneAndDelete :: "task list \<Rightarrow> nat \<Rightarrow> nat \<Rightarrow> task option \<times> task list" where
  "findOneAndDelete db i u =
     (case findOne db i u of
        None \<Rightarrow> (None, db)
      | Some t \<Rightarrow> (Some t, remove1 t db))"


subsection \<open>The task controller\<close>

datatype payload =
    Message string
  | TaskJson task
  | MessageTask string task
  | MessageErrors string "string list"
  | TasksCount "task list" nat

datatype response = Response (status: nat) (payload: payload)

text \<open>
  The controllers answer 500 when the database fails; the model has no such failure, so
  these branches are reached only where a controller maps an error of \<^verbatim>\<open>save\<close> or a
  \<^verbatim>\<open>TypeError\<close> to 500.
\<close>

text \<open>
  The body of a request is the object that the JSON body parser yields (an empty object
  for a request with no body), so a field holds a value of any JSON type. The
  controllers call \<^verbatim>\<open>trim\<close> on \<^verbatim>\<open>title\<close> and \<^verbatim>\<open>description\<close>, so for these
  two the model keeps what the field holds: nothing, \<^verbatim>\<open>null\<close>, a string, or a value
  of another type (a number, a boolean, an array or an object). Of such a value the model
  keeps whether it is truthy and what Mongoose's cast to a string gives: the string, or
  the message of the \<^verbatim>\<open>CastError\<close>.
\<close>

datatype 'a body_value = Undefined | Null | Value 'a | Other bool "string + 'a"

text \<open>Whether \<^verbatim>\<open>!v\<close> is false.\<close>

fun truthy_value :: "js_string body_value \<Rightarrow> bool" where
  "truthy_value Undefined = False"
| "truthy_value Null = False"
| "truthy_value (Value s) = (s \<noteq> [])"
| "truthy_value (Other t c) = t"

text \<open>
  \<^verbatim>\<open>v.trim()\<close> for a value that is neither \<^verbatim>\<open>undefined\<close> nor \<^verbatim>\<open>null\<close>: a
  value that is not a string has no method \<^verbatim>\<open>trim\<close>, and the call throws a
  \<^verbatim>\<open>TypeError\<close>, which is \<^term>\<open>None\<close>. \<^verbatim>\<open>v?.trim()\<close> is
  \<^verbatim>\<open>undefined\<close> for \<^verbatim>\<open>undefined\<close> and \<^verbatim>\<open>null\<close>, and the call otherwise.
\<close>

fun call_trim :: "js_string body_value \<Rightarrow> js_string option" where
  "call_trim (Value s) = Some (trim s)"
| "call_trim _ = None"

fun optional_trim :: "js_string body_value \<Rightarrow> js_string option option" where
  "optional_trim Undefined = Some None"
| "optional_trim Null = Some None"
| "optional_trim v = map_option Some (call_trim v)"

text \<open>
  A request after the auth middleware: \<^verbatim>\<open>req.user._id\<close>; what \<^verbatim>\<open>req.params.id\<close> casts
  to as an ObjectId (\<^term>\<open>None\<close> when the cast fails and the query throws a
  \<^verbatim>\<open>CastError\<close>); the fields of \<^verbatim>\<open>req.body\<close>. The fields other than
  \<^verbatim>\<open>title\<close> and \<^verbatim>\<open>description\<close> are given by the value of the schema's type
  they cast to, \<^term>\<open>None\<close> when \<^verbatim>\<open>undefined\<close> (\<^verbatim>\<open>dueDate\<close> may also be
  \<^verbatim>\<open>null\<close>).
\<close>

record request =
  user_id :: nat
  params_id :: "nat option"
  body_title :: "js_string body_value"
  body_description :: "js_string body_value"
  body_category :: "js_string option"
  body_priority :: "js_string option"
  body_isDone :: "bool option"
  body_dueDate :: "int option option"
  body_tags :: "js_string list option"

definition getTask :: "task list \<Rightarrow> request \<Rightarrow> response" where
  "getTask db req =
     (case params_id req of
        None \<Rightarrow> Response 400 (Message ''Invalid task ID'')
      | Some i \<Rightarrow>
          (case findOne db i (user_id req) of
             None \<Rightarrow> Response 404 (Message ''Task not found'')
           | Some task \<Rightarrow> Response 200 (TaskJson task)))"

text \<open>
  \<^verbatim>\<open>createTask\<close>. The new \<^verbatim>\<open>_id\<close> is one no document of the collection has.
\<close>

definition fresh_id :: "task list \<Rightarrow> nat" where
  "fresh_id db = Suc (fold max (map task_id db) 0)"

text \<open>
  The whole body of the controller is inside \<^verbatim>\<open>try\<close>: a \<^verbatim>\<open>TypeError\<close> of
  \<^verbatim>\<open>title.trim()\<close> or \<^verbatim>\<open>description?.trim()\<close> is caught, it is no
  \<^verbatim>\<open>ValidationError\<close>, and the answer is 500.
\<close>

definition createTask :: "validator \<Rightarrow> int \<Rightarrow> task list \<Rightarrow> request \<Rightarrow> response \<times> task list" where
  "createTask validate now db req =
     (if \<not> truthy_value (body_title req)
      then (Response 400 (Message ''Task title is required''), db)
      else
        (case call_trim (body_title req) of
           None \<Rightarrow> (Response 500 (Message ''Server error creating task''), db)
         | Some trimmed \<Rightarrow>
             if trimmed = []
             then (Response 400 (Message ''Task title is required''), db)
             else if \<not> is_truthy (body_category req)
             then (Response 400 (Message ''Task category is required''), db)
             else
               (case optional_trim (body_description req) of
                  None \<Rightarrow> (Response 500 (Message ''Server error creating task''), db)
                | Some d \<Rightarrow>
                    (let task = \<lparr>task_id = fresh_id db, userId = user_id req,
                            title = Some trimmed,
                            description = Some (case d of None \<Rightarrow> [] | Some x \<Rightarrow> x),
                            category = the (body_category req), isDone = False,
                            priority = (if is_truthy (body_priority req)
                                        then the (body_priority req) else str ''medium''),
                            dueDate = (case body_dueDate req of None \<Rightarrow> None | Some v \<Rightarrow> v),
                            completedAt = None,
                            tags = Some (case body_tags req of None \<Rightarrow> []
                                         | Some ts \<Rightarrow> map trim ts),
                            subTasks = [], createdAt = now, updatedAt = now\<rparr>
                     in case save_new validate now db task of
                          Inr (task', db') \<Rightarrow>
                            (Response 201 (MessageTask ''Task created successfully'' task'), db')
                        | Inl (ValidationError messages) \<Rightarrow>
                            (Response 400 (MessageErrors ''Validation error'' messages), db)
                        | Inl CastError \<Rightarrow>
                            (Response 500 (Message ''Server error creating task''), db)))))"

text \<open>
  The loop over \<^verbatim>\<open>updateFields\<close> assigns every field that is not
  \<^verbatim>\<open>undefined\<close>. An assignment casts the value to the schema's type and the schema
  trims a string; a value that does not cast leaves the path as it is and records the
  \<^verbatim>\<open>CastError\<close>, which validation reports when the document is saved. The result is
  the document and the messages of the recorded errors.
\<close>

fun assign_string :: "js_string body_value \<Rightarrow> js_string option \<Rightarrow> js_string option \<times> string list" where
  "assign_string Undefined old = (old, [])"
| "assign_string Null old = (None, [])"
| "assign_string (Value s) old = (Some (trim s), [])"
| "assign_string (Other t (Inr s)) old = (Some (trim s), [])"
| "assign_string (Other t (Inl m)) old = (old, [m])"

definition update_fields :: "request \<Rightarrow> task \<Rightarrow> task \<times> string list" where
  "update_fields req task =
     (let (v1, e1) = assign_string (body_title req) (title task);
          t1 = task\<lparr>title := v1\<rparr>;
          (v2, e2) = assign_string (body_description req) (description t1);
          t2 = t1\<lparr>description := v2\<rparr>;
          t3 = (case body_category req of None \<Rightarrow> t2 | Some v \<Rightarrow> t2\<lparr>category := v\<rparr>);
          t4 = (case body_priority req of None \<Rightarrow> t3 | Some v \<Rightarrow> t3\<lparr>priority := v\<rparr>);
          t5 = (case body_isDone req of None \<Rightarrow> t4 | Some v \<Rightarrow> t4\<lparr>isDone := v\<rparr>);
          t6 = (case body_dueDate req of None \<Rightarrow> t5 | Some v \<Rightarrow> t5\<lparr>dueDate := v\<rparr>);
          t7 = (case body_tags req of None \<Rightarrow> t6 | Some v \<Rightarrow> t6\<lparr>tags := Some (map trim v)\<rparr>)
      in (t7, e1 @ e2))"

text \<open>\<^verbatim>\<open>save\<close> of a document on which assignments have recorded errors.\<close>

definition save_assigned ::
  "validator \<Rightarrow> int \<Rightarrow> task list \<Rightarrow> task \<Rightarrow> task \<times> string list \<Rightarrow>
     mongoose_error + task \<times> task list" where
  "save_assigned validate now db loaded assigned =
     (case snd assigned of
        [] \<Rightarrow> save validate now db loaded (fst assigned)
      | m # ms \<Rightarrow> Inl (ValidationError (m # ms @ validate now (fst assigned))))"

definition updateTask :: "validator \<Rightarrow> int \<Rightarrow> task list \<Rightarrow> request \<Rightarrow> response \<times> task list" where
  "updateTask validate now db req =
     (case params_id req of
        None \<Rightarrow> (Response 400 (Message ''Invalid task ID''), db)
      | Some i \<Rightarrow>
          (case findOne db i (user_id req) of
             None \<Rightarrow> (Response 404 (Message ''Task not found''), db)
           | Some task \<Rightarrow>
               (case save_assigned validate now db task (update_fields req task) of
                  Inr (task', db') \<Rightarrow>
                    (Response 200 (MessageTask ''Task updated successfully'' task'), db')
                | Inl CastError \<Rightarrow> (Response 400 (Message ''Invalid task ID''), db)
                | Inl (ValidationError messages) \<Rightarrow>
                    (Response 400 (MessageErrors ''Validation error'' messages), db))))"

definition deleteTask :: "task list \<Rightarrow> request \<Rightarrow> response \<times> task list" where
  "deleteTask db req =
     (case params_id req of
        None \<Rightarrow> (Response 400 (Message ''Invalid task ID''), db)
      | Some i \<Rightarrow>
          (case findOneAndDelete db i (user_id req) of
             (None, db') \<Rightarrow> (Response 404 (Message ''Task not found''), db')
           | (Some task, db') \<Rightarrow> (Response 200 (Message ''Task deleted successfully''), db')))"

definition toggleTask :: "validator \<Rightarrow> int \<Rightarrow> task list \<Rightarrow> request \<Rightarrow> response \<times> task list" where
  "toggleTask validate now db req =
     (case params_id req of
        None \<Rightarrow> (Response 400 (Message ''Invalid task ID''), db)
      | Some i \<Rightarrow>
          (case findOne db i (user_id req) of
             None \<Rightarrow> (Response 404 (Message ''Task not found''), db)
           | Some task \<Rightarrow>
               (case toggleCompletion validate now db task of
                  Inr (task', db') \<Rightarrow>
                    (Response 200
                       (MessageTask
                          (''Task marked as '' @ (if isDone task' then ''completed'' else ''pending''))
                          task'), db')
                | Inl CastError \<Rightarrow> (Response 400 (Message ''Invalid task ID''), db)
                | Inl (ValidationError messages) \<Rightarrow>
                    (Response 500 (Message ''Server error toggling task''), db))))"

text \<open>
  \<^verbatim>\<open>addSubTask\<close> tests the title before it looks the task up. A truthy title that is
  not a string makes \<^verbatim>\<open>title.trim()\<close> throw a \<^verbatim>\<open>TypeError\<close>; it is caught, it is
  no \<^verbatim>\<open>CastError\<close>, and the answer is 500.
\<close>

definition addSubTask :: "validator \<Rightarrow> int \<Rightarrow> task list \<Rightarrow> request \<Rightarrow> response \<times> task list" where
  "addSubTask validate now db req =
     (if \<not> truthy_value (body_title req)
      then (Response 400 (Message ''Subtask title is required''), db)
      else
        (case call_trim (body_title req) of
           None \<Rightarrow> (Response 500 (Message ''Server error adding subtask''), db)
         | Some trimmed \<Rightarrow>
             if trimmed = []
             then (Response 400 (Message ''Subtask title is required''), db)
             else
               (case params_id req of
                  None \<Rightarrow> (Response 400 (Message ''Invalid task ID''), db)
                | Some i \<Rightarrow>
                    (case findOne db i (user_id req) of
                       None \<Rightarrow> (Response 404 (Message ''Task not found''), db)
                     | Some task \<Rightarrow>
                         (case addSubTask_method validate now db task trimmed of
                            Inr (task', db') \<Rightarrow>
                              (Response 201 (MessageTask ''Subtask added successfully'' task'), db')
                          | Inl CastError \<Rightarrow> (Response 400 (Message ''Invalid task ID''), db)
                          | Inl (ValidationError messages) \<Rightarrow>
                              (Response 500 (Message ''Server error adding subtask''), db))))))"





text \<open>The operations of the API that read or write a single task, and the creation.\<close>

datatype operation = CreateTask | GetTask | UpdateTask | DeleteTask | ToggleTask | AddSubTask

fun handle ::
  "validator \<Rightarrow> int \<Rightarrow> task list \<Rightarrow> operation \<Rightarrow> request \<Rightarrow> response \<times> task list" where
  "handle validate now db CreateTask req = createTask validate now db req"
| "handle validate now db GetTask req = (getTask db req, db)"
| "handle validate now db UpdateTask req = updateTask validate now db req"
| "handle validate now db DeleteTask req = deleteTask db req"
| "handle validate now db ToggleTask req = toggleTask validate now db req"
| "handle validate now db AddSubTask req = addSubTask validate now db req"

text \<open>The collections the API can reach from the empty one.\<close>

inductive reachable :: "validator \<Rightarrow> task list \<Rightarrow> bool" for validate where
  empty: "reachable validate []"
| step: "reachable validate db \<Longrightarrow> reachable validate (snd (handle validate now db op req))"

text \<open>The tasks a response shows.\<close>

fun payload_tasks :: "payload \<Rightarrow> task list" where
  "payload_tasks (Message m) = []"
| "payload_tasks (TaskJson t) = [t]"
| "payload_tasks (MessageTask m t) = [t]"
| "payload_tasks (MessageErrors m es) = []"
| "payload_tasks (TasksCount ts n) = ts"

subsection \<open>Express routers\<close>

text \<open>
  A router is a list of layers in the order of their registration. A request runs through
  the layers: a middleware either answers (and the chain ends) or passes the request on; the
  first route whose method and path match runs its own middlewares and then its handler.
  The middlewares \<^verbatim>\<open>auth\<close> and \<^verbatim>\<open>authLimiter\<close> are defined outside the files at hand
  and are a parameter of \<^term>\<open>dispatch\<close>; the controllers are named, not run. A path is the
  list of its segments below the router's mount point. Both routers are made by
  \<^verbatim>\<open>express.Router()\<close> with no options, so a literal segment of a route (the literals
  here consist of ASCII letters) matches without regard to the case of the letters A to Z.
\<close>

datatype http_method = GET | POST | PUT | PATCH | DELETE

datatype segment = Lit js_string | Param string

fun matches :: "segment list \<Rightarrow> js_string list \<Rightarrow> bool" where
  "matches [] [] = True"
| "matches (Lit s # ps) (x # xs) =
     (ascii_toLowerCase s = ascii_toLowerCase x \<and> matches ps xs)"
| "matches (Param n # ps) (x # xs) = (x \<noteq> [] \<and> matches ps xs)"
| "matches _ _ = False"

fun matches_prefix :: "segment list \<Rightarrow> js_string list \<Rightarrow> bool" where
  "matches_prefix [] xs = True"
| "matches_prefix (Lit s # ps) (x # xs) =
     (ascii_toLowerCase s = ascii_toLowerCase x \<and> matches_prefix ps xs)"
| "matches_prefix (Param n # ps) (x # xs) = (x \<noteq> [] \<and> matches_prefix ps xs)"
| "matches_prefix _ _ = False"

datatype middleware = Auth | AuthLimiter

text \<open>The handlers of the two routers (the suffix \<^verbatim>\<open>H\<close> avoids a clash of names).\<close>

datatype handler =
    GetTasks | GetOverdueTasks | GetTasksByCategory | GetTaskH | CreateTaskH | UpdateTaskH
  | ToggleTaskH | AddSubTaskH | DeleteTaskH
  | Register | Login | GetProfile | UpdateProfile | VerifyToken

datatype layer =
    Use middleware
  | UseAt "segment list" middleware
  | Route http_method "segment list" "middleware list" handler

definition taskRoutes :: "layer list" where
  "taskRoutes =
     [Use Auth,
      Route GET [] [] GetTasks,
      Route GET [Lit (str ''overdue'')] [] GetOverdueTasks,
      Route GET [Lit (str ''category''), Param ''category''] [] GetTasksByCategory,
      Route GET [Param ''id''] [] GetTaskH,
      Route POST [] [] CreateTaskH,
      Route PATCH [Param ''id''] [] UpdateTaskH,
      Route PATCH [Param ''id'', Lit (str ''toggle'')] [] ToggleTaskH,
      Route POST [Param ''id'', Lit (str ''subtasks'')] [] AddSubTaskH,
      Route DELETE [Param ''id''] [] DeleteTaskH]"

definition authRoutes :: "layer list" where
  "authRoutes =
     [UseAt [Lit (str ''register'')] AuthLimiter,
      UseAt [Lit (str ''login'')] AuthLimiter,
      Route POST [Lit (str ''register'')] [] Register,
      Route POST [Lit (str ''login'')] [] Login,
      Route GET [Lit (str ''me'')] [Auth] GetProfile,
      Route PUT [Lit (str ''profile'')] [Auth] UpdateProfile,
      Route POST [Lit (str ''verify'')] [Auth] VerifyToken]"

datatype 'req outcome = Responded response | Handled handler 'req | Unmatched

fun run_middlewares ::
  "(middleware \<Rightarrow> 'req \<Rightarrow> response + 'req) \<Rightarrow> middleware list \<Rightarrow> 'req \<Rightarrow> response + 'req" where
  "run_middlewares mw [] req = Inr req"
| "run_middlewares mw (n # ns) req =
     (case mw n req of Inl res \<Rightarrow> Inl res | Inr req' \<Rightarrow> run_middlewares mw ns req')"

fun dispatch ::
  "(middleware \<Rightarrow> 'req \<Rightarrow> response + 'req) \<Rightarrow> layer list \<Rightarrow> http_method \<Rightarrow>
     js_string list \<Rightarrow> 'req \<Rightarrow> 'req outcome" where
  "dispatch mw [] m path req = Unmatched"
| "dispatch mw (Use n # layers) m path req =
     (case mw n req of
        Inl res \<Rightarrow> Responded res
      | Inr req' \<Rightarrow> dispatch mw layers m path req')"
| "dispatch mw (UseAt p n # layers) m path req =
     (if matches_prefix p path
      then (case mw n req of
              Inl res \<Rightarrow> Responded res
            | Inr req' \<Rightarrow> dispatch mw layers m path req')
      else dispatch mw layers m path req)"
| "dispatch mw (Route m' p ns h # layers) m path req =
     (if m' = m \<and> matches p path
      then (case run_middlewares mw ns req of
              Inl res \<Rightarrow> Responded res
            | Inr req' \<Rightarrow> Handled h req')
      else dispatch mw layers m path req)"

subsection \<open>The response interceptor of the client\<close>

text \<open>
  The error branch of \<^verbatim>\<open>api.interceptors.response\<close>, as a function of the browser state
  (local storage, location, the toasts shown); the promise is rejected in every branch.
\<close>

record browser =
  localStorage :: "string \<rightharpoonup> string"
  location_href :: string
  toasts :: "string list"

record axios_error =
  response_status :: "nat option"
  response_message :: "string option"
  error_code :: "string option"

definition toast_error :: "string \<Rightarrow> browser \<Rightarrow> browser" where
  "toast_error m b = b\<lparr>toasts := toasts b @ [m]\<rparr>"

definition on_response_error :: "browser \<Rightarrow> axios_error \<Rightarrow> browser" where
  "on_response_error b error =
     (if response_status error = Some 401
      then toast_error ''Session expired. Please login again.''
             (b\<lparr>localStorage := (localStorage b)(''token'' := None, ''user'' := None),
                location_href := ''/login''\<rparr>)
      else if response_status error = Some 403 then toast_error ''Access denied'' b
      else if response_status error = Some 404 then toast_error ''Resource not found'' b
      else if (case response_status error of None \<Rightarrow> False | Some s \<Rightarrow> 500 \<le> s)
      then toast_error ''Server error. Please try again later.'' b
      else if error_code error = Some ''ECONNABORTED''
      then toast_error ''Request timeout. Please check your connection.'' b
      else if error_code error = Some ''ERR_NETWORK'' \<or> response_status error = None
      then toast_error
             ''Cannot connect to server. Please ensure the backend is running on port 5000.'' b
      else toast_error
             (case response_message error of
                None \<Rightarrow> ''An unexpected error occurred.''
              | Some m \<Rightarrow> if m = [] then ''An unexpected error occurred.'' else m) b)"

subsection \<open>Predicates of the specification\<close>


text \<open>
  No task with the id of the request belongs to the requesting user; the tasks of the other
  users; the relation between completion flag and completion date.
\<close>

definition no_own_task :: "task list \<Rightarrow> request \<Rightarrow> bool" where
  "no_own_task db req \<longleftrightarrow>
     (case params_id req of
        None \<Rightarrow> True
      | Some i \<Rightarrow> \<not> (\<exists>t\<in>set db. task_id t = i \<and> userId t = user_id req))"

definition others :: "request \<Rightarrow> task list \<Rightarrow> task list" where
  "others req db = filter (\<lambda>t. userId t \<noteq> user_id req) db"

definition task_inv :: "task \<Rightarrow> bool" where
  "task_inv t \<longleftrightarrow> (\<not> isDone t \<longrightarrow> completedAt t = None)"

text \<open>
  A title that \<^verbatim>\<open>addSubTask\<close> accepts: a string with a character that is not white
  space.
\<close>

definition nonblank_string :: "js_string body_value \<Rightarrow> bool" where
  "nonblank_string v \<longleftrightarrow> (case v of Value s \<Rightarrow> \<exists>c\<in>set s. \<not> is_space c | _ \<Rightarrow> False)"

text \<open>
  What it means for the outcome of an operation to be scoped to the requesting user: it
  answers 404 exactly when the id is well-formed, the request passes the operation's own
  check of the body, and the user has no such task; it shows only tasks of the user; and it
  leaves the tasks of all other users as they are.
\<close>

definition scoped :: "task list \<Rightarrow> request \<Rightarrow> bool \<Rightarrow> response \<times> task list \<Rightarrow> bool" where
  "scoped db req title_ok r \<longleftrightarrow>
     (status (fst r) = 404 \<longleftrightarrow> no_own_task db req \<and> params_id req \<noteq> None \<and> title_ok) \<and>
     (\<forall>t\<in>set (payload_tasks (payload (fst r))). userId t = user_id req) \<and>
     others req (snd r) = others req db"

subsection \<open>Sample data\<close>

text \<open>
  Concrete tasks, filters and heaps for the instances below. \<^term>\<open>demo_late\<close> is due at
  \<^verbatim>\<open>+010000-01-01T00:00:00.000Z\<close>, one day after the date that stands for a missing
  due date.
\<close>

definition demo_task :: task where
  "demo_task = \<lparr>task_id = 1, userId = 7, title = Some (str ''Buy Milk''),
     description = Some (str ''two litres''), category = str ''shopping'', isDone = False,
     priority = str ''low'', dueDate = None, completedAt = None,
     tags = Some [str ''food'', str ''Home''],
     subTasks = [], createdAt = 1000, updatedAt = 1000\<rparr>"

definition demo_late :: task where
  "demo_late = demo_task\<lparr>task_id := 2, dueDate := Some 253402300800000\<rparr>"

text \<open>
  Five tasks for the search: the term is in the title of the first, in the description of
  the second, in the joined tags of the third and in no text of the fourth (whose tags
  \<^verbatim>\<open>mil\<close> and \<^verbatim>\<open>k\<close> are joined to \<^verbatim>\<open>mil k\<close>); the fifth is done.
\<close>

definition demo_tasks :: "task list" where
  "demo_tasks =
     [demo_task,
      demo_task\<lparr>task_id := 3, title := Some (str ''Call Bob''),
        description := Some (str ''about the MILK round''), tags := None\<rparr>,
      demo_task\<lparr>task_id := 4, title := None, description := None,
        tags := Some [str ''Oat'', str ''Milk'']\<rparr>,
      demo_task\<lparr>task_id := 5, title := Some (str ''Walk''), description := None,
        tags := Some [str ''mil'', str ''k'']\<rparr>,
      demo_task\<lparr>task_id := 6, isDone := True\<rparr>]"

definition demo_filters :: filters where
  "demo_filters = \<lparr>filter_status = Some (str ''pending''),
     filter_category = Some (str ''shopping''), filter_priority = None,
     filter_search = Some (str ''MILK'')\<rparr>"

definition demo_search :: filters where
  "demo_search = \<lparr>filter_status = Some (str ''all''), filter_category = Some [],
     filter_priority = None, filter_search = Some (str ''oat m'')\<rparr>"

definition demo_by_priority :: "task list" where
  "demo_by_priority = [demo_task, demo_task\<lparr>task_id := 5, priority := str ''urgent''\<rparr>,
     demo_task\<lparr>task_id := 6, priority := str ''high''\<rparr>]"

definition demo_by_due :: "task list" where
  "demo_by_due = [demo_task, demo_task\<lparr>task_id := 8, dueDate := Some 2000\<rparr>]"

text \<open>
  Four titles: by code units \<^verbatim>\<open>Buy Milk\<close> and \<^verbatim>\<open>Zoo\<close> come before
  \<^verbatim>\<open>apple\<close>; without regard to case \<^verbatim>\<open>apple\<close> comes first.
\<close>

definition demo_by_title :: "task list" where
  "demo_by_title = [demo_task\<lparr>task_id := 9, title := Some (str ''Zoo'')\<rparr>,
     demo_task\<lparr>task_id := 10, title := Some (str ''apple'')\<rparr>,
     demo_task\<lparr>task_id := 11, title := None\<rparr>,
     demo_task]"

definition demo_env :: js_env where
  "demo_env = \<lparr>heap = (\<lambda>a. [])(0 := demo_by_due), next_addr = 1, clock = 1500\<rparr>"

definition demo_env2 :: js_env where
  "demo_env2 = \<lparr>heap = (\<lambda>a. [demo_late])(3 := demo_by_due), next_addr = 4, clock = 1500\<rparr>"

definition demo_db :: "task list" where
  "demo_db = [demo_task\<lparr>task_id := 1, dueDate := Some 900\<rparr>,
              demo_task\<lparr>task_id := 2, userId := 8, dueDate := Some 100\<rparr>,
              demo_task\<lparr>task_id := 3, dueDate := Some 500\<rparr>,
              demo_task\<lparr>task_id := 4\<rparr>]"

definition demo_request :: request where
  "demo_request = \<lparr>user_id = 7, params_id = Some 1, body_title = Undefined,
     body_description = Undefined, body_category = None, body_priority = None,
     body_isDone = None, body_dueDate = None, body_tags = None\<rparr>"

definition demo_create :: request where
  "demo_create = \<lparr>user_id = 7, params_id = None,
     body_title = Value (str '' Water plants ''), body_description = Undefined,
     body_category = Some (str ''personal''), body_priority = None,
     body_isDone = None, body_dueDate = Some (Some 90), body_tags = None\<rparr>"

definition demo_created :: task where
  "demo_created = \<lparr>task_id = 1, userId = 7, title = Some (str ''Water plants''),
     description = Some [], category = str ''personal'', isDone = False,
     priority = str ''medium'', dueDate = Some 90, completedAt = None, tags = Some [],
     subTasks = [], createdAt = 10, updatedAt = 10\<rparr>"

definition demo_done :: task where
  "demo_done = demo_created\<lparr>isDone := True, completedAt := Some 50, updatedAt := 50\<rparr>"

definition demo_undone :: task where
  "demo_undone = demo_created\<lparr>isDone := False, completedAt := None, updatedAt := 60\<rparr>"

definition demo_foreign :: request where
  "demo_foreign = demo_request\<lparr>params_id := Some 2\<rparr>"

definition demo_rename :: request where
  "demo_rename = demo_request\<lparr>params_id := Some 4, body_title := Value (str ''Buy bread '')\<rparr>"

text \<open>
  Requests to add a subtask to the task of another user: with a title, and with the
  number 5 as the title.
\<close>

definition demo_subtask :: request where
  "demo_subtask = demo_foreign\<lparr>body_title := Value (str ''Pay'')\<rparr>"

definition demo_subtask_number :: request where
  "demo_subtask_number = demo_foreign\<lparr>body_title := Other True (Inr (str ''5''))\<rparr>"

definition demo_mw :: "middleware \<Rightarrow> string \<Rightarrow> response + string" where
  "demo_mw n token =
     (case n of
        Auth \<Rightarrow> if token = ''valid'' then Inr token
                else Inl (Response 401 (Message ''Token is not valid''))
      | AuthLimiter \<Rightarrow> Inr token)"

definition demo_browser :: browser where
  "demo_browser =
     \<lparr>localStorage = [''token'' \<mapsto> ''expired'', ''user'' \<mapsto> ''{}'', ''theme'' \<mapsto> ''dark''],
      location_href = ''/dashboard'', toasts = []\<rparr>"

subsection \<open>Facts about strings\<close>

lemma str_eq_iff [simp]: "str a = str b \<longleftrightarrow> a = b"
  by (simp add: str_def inj_map_eq_map inj_on_def)

lemma str_Nil [simp]: "str s = [] \<longleftrightarrow> s = []"
  by (simp add: str_def)

lemma Nil_str [simp]: "[] = str s \<longleftrightarrow> s = []"
  by (simp add: str_def)

lemma includes_iff_sublist: "str_includes s t \<longleftrightarrow> sublist t s"
  by (induction s) (auto simp: sublist_Cons_right)

lemma join_space: "join (str '' '') ts = space_joined ts"
proof (induction ts rule: induct_list012)
  case 1
  then show ?case by (simp add: space_joined_def)
next
  case (2 x)
  then show ?case by (simp add: space_joined_def)
next
  case (3 x y zs)
  then show ?case by (simp add: space_joined_def str_def)
qed

lemma trim_Nil_iff: "trim s = [] \<longleftrightarrow> (\<forall>c\<in>set s. is_space c)"
proof -
  have "dropWhile is_space (rev (dropWhile is_space s)) = [] \<longleftrightarrow> dropWhile is_space s = []"
  proof
    assume "dropWhile is_space (rev (dropWhile is_space s)) = []"
    then have a: "\<forall>c\<in>set (dropWhile is_space s). is_space c"
      by (simp only: dropWhile_eq_Nil_conv set_rev)
    show "dropWhile is_space s = []"
    proof (rule ccontr)
      assume n: "dropWhile is_space s \<noteq> []"
      then have "\<not> is_space (hd (dropWhile is_space s))"
        by (rule hd_dropWhile)
      moreover have "hd (dropWhile is_space s) \<in> set (dropWhile is_space s)"
        using n by simp
      ultimately show False using a by blast
    qed
  next
    assume e: "dropWhile is_space s = []"
    show "dropWhile is_space (rev (dropWhile is_space s)) = []"
      unfolding e by simp
  qed
  then have "trim s = [] \<longleftrightarrow> dropWhile is_space s = []"
    by (simp only: trim_def rev_is_Nil_conv)
  then show ?thesis
    by (simp only: dropWhile_eq_Nil_conv)
qed

text \<open>
  \<^verbatim>\<open>trim\<close> removes the no-break space and the other Unicode spaces as well as the
  ASCII ones.
\<close>

lemma trim_unicode:
  "trim ([0xA0, 0x20, 0x2003] @ str ''Water plants'' @ [0x9, 0x3000, 0xFEFF]) = str ''Water plants''"
  by (simp add: trim_def is_space_def str_def)

subsection \<open>The priority rank\<close>

text \<open>
  C3. For each of the four priority strings the rank used for comparison is the stated
  number: low is 1, medium is 2, high is 3 and urgent is 4.
\<close>

theorem getPriorityValue_known:
  "getPriorityValue (str ''low'') = Num 1 \<and> getPriorityValue (str ''medium'') = Num 2 \<and>
   getPriorityValue (str ''high'') = Num 3 \<and> getPriorityValue (str ''urgent'') = Num 4"
  by (simp add: getPriorityValue_def get_property_def priorities_def)

subsection \<open>Filtering\<close>

lemma lowered_tags_eq:
  "lowered_tags lc v = (case v of None \<Rightarrow> [] | Some ts \<Rightarrow> lc (space_joined ts))"
  by (cases v) (simp_all add: lowered_tags_def join_space)

lemma status_condition:
  "(is_truthy st \<and> st \<noteq> Some (str ''all'') \<and>
      ((st = Some (str ''pending'') \<and> d) \<or> (st = Some (str ''completed'') \<and> \<not> d))) \<longleftrightarrow>
   \<not> ((st = Some (str ''pending'') \<longrightarrow> \<not> d) \<and> (st = Some (str ''completed'') \<longrightarrow> d))"
  by (cases st) auto

lemma select_condition:
  "(is_truthy c \<and> c \<noteq> Some (str ''all'') \<and> Some x \<noteq> c) \<longleftrightarrow>
   \<not> (case c of Some v \<Rightarrow> v \<noteq> [] \<and> v \<noteq> str ''all'' \<longrightarrow> x = v | None \<Rightarrow> True)"
  by (cases c) auto

lemma search_condition:
  "(is_truthy q \<and>
      (let searchTerm = lc (the q);
           title = lowered lc ti;
           description = lowered lc de;
           tags = lowered_tags lc ta
       in \<not> str_includes title searchTerm \<and> \<not> str_includes description searchTerm \<and>
          \<not> str_includes tags searchTerm)) \<longleftrightarrow>
   \<not> (case q of
        Some s \<Rightarrow> s \<noteq> [] \<longrightarrow>
          sublist (lc s) (case ti of None \<Rightarrow> [] | Some x \<Rightarrow> lc x) \<or>
          sublist (lc s) (case de of None \<Rightarrow> [] | Some x \<Rightarrow> lc x) \<or>
          sublist (lc s) (case ta of None \<Rightarrow> [] | Some ts \<Rightarrow> lc (space_joined ts))
      | None \<Rightarrow> True)"
  by (cases q) (simp_all add: Let_def includes_iff_sublist lowered_def lowered_tags_eq)

lemma filter_callback_iff: "filter_callback lc f t \<longleftrightarrow> satisfies_filters lc f t"
  unfolding filter_callback_def satisfies_filters_def
  by (simp only: status_condition select_condition search_condition if_not_P if_P
      split: if_splits) blast

text \<open>
  C1. For every list of tasks and every filters object, \<^verbatim>\<open>filterTasks\<close> returns
  exactly the tasks that satisfy the conjunction of the status, category, priority and
  search conditions, in their original relative order: the lower-cased search term is a
  substring of the lower-cased title, of the lower-cased description, or of the lower-cased
  tags joined by spaces. The statement holds for whatever function the engine's
  \<^verbatim>\<open>toLowerCase\<close> is.
\<close>

theorem filterTasks_exact:
  "filterTasks lc tasks filters = filter (satisfies_filters lc filters) tasks \<and>
   subseq (filterTasks lc tasks filters) tasks"
proof -
  have "filter_callback lc filters = satisfies_filters lc filters"
    by (rule ext) (simp add: filter_callback_iff)
  then show ?thesis
    by (simp add: filterTasks_def)
qed

text \<open>
  Instances. With status \<^verbatim>\<open>pending\<close>, category \<^verbatim>\<open>shopping\<close> and the search
  term \<^verbatim>\<open>MILK\<close>, of the five sample tasks the conditions hold of the first (by its
  title), the second (by its description) and the third (by its tags). The term
  \<^verbatim>\<open>oat m\<close> is found only in the tags \<^verbatim>\<open>Oat\<close> and \<^verbatim>\<open>Milk\<close> of the third task,
  joined by a space and lower-cased.
\<close>

theorem filterTasks_exact_witness:
  "map task_id (filter (satisfies_filters ascii_toLowerCase demo_filters) demo_tasks) = [1, 3, 4] \<and>
   map task_id (filter (satisfies_filters ascii_toLowerCase demo_search) demo_tasks) = [4] \<and>
   filterTasks ascii_toLowerCase demo_tasks demo_search =
     [demo_task\<lparr>task_id := 4, title := None, description := None,
        tags := Some [str ''Oat'', str ''Milk'']\<rparr>]"
proof -
  have a: "map task_id (filterTasks ascii_toLowerCase demo_tasks demo_filters) = [1, 3, 4]"
    by (simp add: filterTasks_def filter_callback_def demo_tasks_def demo_filters_def
        demo_task_def lowered_def lowered_tags_def ascii_toLowerCase_def str_def)
  have b: "filterTasks ascii_toLowerCase demo_tasks demo_search =
     [demo_task\<lparr>task_id := 4, title := None, description := None,
        tags := Some [str ''Oat'', str ''Milk'']\<rparr>]"
    by (simp add: filterTasks_def filter_callback_def demo_tasks_def demo_search_def
        demo_task_def lowered_def lowered_tags_def ascii_toLowerCase_def str_def)
  have c: "filter (satisfies_filters ascii_toLowerCase demo_filters) demo_tasks =
      filterTasks ascii_toLowerCase demo_tasks demo_filters"
    using filterTasks_exact [of ascii_toLowerCase demo_tasks demo_filters] by simp
  have d: "filter (satisfies_filters ascii_toLowerCase demo_search) demo_tasks =
      filterTasks ascii_toLowerCase demo_tasks demo_search"
    using filterTasks_exact [of ascii_toLowerCase demo_tasks demo_search] by simp
  show ?thesis
    unfolding c d using a b by simp
qed

text \<open>
  The search lower-cases by the engine's function, also outside ASCII: with a function
  that maps \<^verbatim>\<open>E\<close> with an acute accent (U+00C9) to its small letter (U+00E9), as
  \<^verbatim>\<open>toLowerCase\<close> does, the search term \<^verbatim>\<open>ECOLE\<close> written with that capital
  finds the task titled with the small letters.
\<close>

lemma filterTasks_accented:
  assumes "lc [0xC9, 0x43, 0x4F, 0x4C, 0x45] = [0xE9, 0x63, 0x6F, 0x6C, 0x65]"
    and "lc [0xE9, 0x63, 0x6F, 0x6C, 0x65] = [0xE9, 0x63, 0x6F, 0x6C, 0x65]"
  shows "filterTasks lc [demo_task\<lparr>title := Some [0xE9, 0x63, 0x6F, 0x6C, 0x65]\<rparr>]
      \<lparr>filter_status = None, filter_category = None, filter_priority = None,
        filter_search = Some [0xC9, 0x43, 0x4F, 0x4C, 0x45]\<rparr> =
    [demo_task\<lparr>title := Some [0xE9, 0x63, 0x6F, 0x6C, 0x65]\<rparr>]"
  using assms by (simp add: filterTasks_def filter_callback_def lowered_def)

subsection \<open>Sorting\<close>

lemma mset_insert_by: "mset (insert_by cmp x ys) = add_mset x (mset ys)"
  by (induction ys) auto

lemma mset_array_sort: "mset (array_sort cmp xs) = mset xs"
  by (induction xs) (auto simp: array_sort_def mset_insert_by)

lemma set_insert_by: "set (insert_by cmp x ys) = insert x (set ys)"
  by (induction ys) auto

lemma set_array_sort: "set (array_sort cmp xs) = set xs"
  by (induction xs) (auto simp: array_sort_def set_insert_by)

lemma sorted_insert_by:
  assumes tr: "\<And>a b c. R a b \<Longrightarrow> R b c \<Longrightarrow> R a c"
    and le: "\<And>y. y \<in> set ys \<Longrightarrow> cmp x y \<le> 0 \<Longrightarrow> R x y"
    and gt: "\<And>y. y \<in> set ys \<Longrightarrow> \<not> cmp x y \<le> 0 \<Longrightarrow> R y x"
    and srt: "sorted_wrt R ys"
  shows "sorted_wrt R (insert_by cmp x ys)"
  using le gt srt
proof (induction ys)
  case Nil
  then show ?case by simp
next
  case (Cons y ys)
  show ?case
  proof (cases "cmp x y \<le> 0")
    case True
    then have xy: "R x y" using Cons.prems(1) by simp
    have "\<forall>z\<in>set ys. R x z"
      using xy Cons.prems(3) tr by auto
    then show ?thesis using True xy Cons.prems(3) by simp
  next
    case False
    then have yx: "R y x" using Cons.prems(2) by simp
    have "sorted_wrt R (insert_by cmp x ys)"
      using Cons.IH Cons.prems by simp
    then show ?thesis using False yx Cons.prems(3) by (auto simp: set_insert_by)
  qed
qed

lemma sorted_array_sort:
  assumes tr: "\<And>a b c. R a b \<Longrightarrow> R b c \<Longrightarrow> R a c"
    and le: "\<And>x y. x \<in> set xs \<Longrightarrow> y \<in> set xs \<Longrightarrow> cmp x y \<le> 0 \<Longrightarrow> R x y"
    and gt: "\<And>x y. x \<in> set xs \<Longrightarrow> y \<in> set xs \<Longrightarrow> \<not> cmp x y \<le> 0 \<Longrightarrow> R y x"
  shows "sorted_wrt R (array_sort cmp xs)"
  using le gt
proof (induction xs)
  case Nil
  then show ?case by (simp add: array_sort_def)
next
  case (Cons x xs)
  have IH: "sorted_wrt R (array_sort cmp xs)"
    using Cons by simp
  have "sorted_wrt R (insert_by cmp x (array_sort cmp xs))"
    by (rule sorted_insert_by [OF tr _ _ IH]) (use Cons.prems in \<open>auto simp: set_array_sort\<close>)
  then show ?case by (simp add: array_sort_def)
qed

lemma getPriorityValue_rank:
  "p \<notin> set Object_prototype_keys \<Longrightarrow> getPriorityValue p = Num (priority_rank p)"
  by (auto simp: getPriorityValue_def get_property_def priorities_def priority_rank_def)

lemma schema_priorities_not_inherited:
  "p \<in> {str ''low'', str ''medium'', str ''high'', str ''urgent''} \<Longrightarrow>
   p \<notin> set Object_prototype_keys"
  by (auto simp: Object_prototype_keys_def)

lemma key_le_trans: "key_le lc s a b \<Longrightarrow> key_le lc s b c \<Longrightarrow> key_le lc s a c"
  by (cases s) (auto simp: key_le_def)

lemma key_le_total: "key_le lc s a b \<or> key_le lc s b a"
  by (cases s) (auto simp: key_le_def)

subsection \<open>sortTasks is a sorted permutation\<close>

text \<open>
  The comparator and the order of the specification, key by key: the values the comparator
  computes are the keys of the specification.
\<close>

lemma lowered_key: "lowered lc v = (case v of None \<Rightarrow> [] | Some s \<Rightarrow> lc s)"
  by (simp add: lowered_def)

lemma due_value_key: "due_value v = (case v of None \<Rightarrow> 253402214400000 | Some d \<Rightarrow> d)"
  by (cases v) (simp_all add: due_value_def sentinel_date_def)

lemma sort_values_key:
  assumes "s = Priority \<longrightarrow>
      priority a \<notin> set Object_prototype_keys \<and> priority b \<notin> set Object_prototype_keys"
  shows "sort_values lc s a b = (\<not> key_le lc s b a, \<not> key_le lc s a b)"
proof (cases s)
  case Priority
  then show ?thesis
    using assms by (simp add: sort_values_def key_le_def getPriorityValue_rank not_le Let_def)
next
  case Title
  then show ?thesis
    by (simp add: sort_values_def key_le_def lowered_key not_le Let_def)
next
  case DueDate
  then show ?thesis
    by (simp add: sort_values_def key_le_def due_value_key not_le Let_def)
qed (simp_all add: sort_values_def key_le_def not_le Let_def)

lemma compare_tasks_asc:
  assumes "s = Priority \<longrightarrow>
      priority a \<notin> set Object_prototype_keys \<and> priority b \<notin> set Object_prototype_keys"
  shows "compare_tasks lc s (str ''asc'') a b \<le> 0 \<longleftrightarrow> key_le lc s a b"
  using key_le_total [of lc s a b]
  by (auto simp: compare_tasks_def sort_values_key [OF assms])

lemma compare_tasks_desc:
  assumes "s = Priority \<longrightarrow>
      priority a \<notin> set Object_prototype_keys \<and> priority b \<notin> set Object_prototype_keys"
    and "so \<noteq> str ''asc''"
  shows "compare_tasks lc s so a b \<le> 0 \<longleftrightarrow> key_le lc s b a"
  using key_le_total [of lc s a b] assms(2)
  by (auto simp: compare_tasks_def sort_values_key [OF assms(1)])

lemma sortTasks_asc:
  assumes "sortBy = Priority \<longrightarrow> (\<forall>t\<in>set tasks. priority t \<notin> set Object_prototype_keys)"
  shows "sorted_wrt (key_le lc sortBy) (sortTasks lc tasks sortBy (str ''asc''))"
  unfolding sortTasks_def
proof (rule sorted_array_sort)
  show "key_le lc sortBy a b \<Longrightarrow> key_le lc sortBy b c \<Longrightarrow> key_le lc sortBy a c" for a b c
    by (rule key_le_trans)
  show "key_le lc sortBy x y"
    if "x \<in> set tasks" "y \<in> set tasks" "compare_tasks lc sortBy (str ''asc'') x y \<le> 0" for x y
    using that assms compare_tasks_asc [of sortBy x y lc] by auto
  show "key_le lc sortBy y x"
    if "x \<in> set tasks" "y \<in> set tasks" "\<not> compare_tasks lc sortBy (str ''asc'') x y \<le> 0"
    for x y
    using that assms compare_tasks_asc [of sortBy x y lc] key_le_total [of lc sortBy x y] by auto
qed

lemma sortTasks_desc:
  assumes "sortBy = Priority \<longrightarrow> (\<forall>t\<in>set tasks. priority t \<notin> set Object_prototype_keys)"
    and "sortOrder \<noteq> str ''asc''"
  shows "sorted_wrt (\<lambda>a b. key_le lc sortBy b a) (sortTasks lc tasks sortBy sortOrder)"
  unfolding sortTasks_def
proof (rule sorted_array_sort)
  show "key_le lc sortBy b a \<Longrightarrow> key_le lc sortBy c b \<Longrightarrow> key_le lc sortBy c a" for a b c
    using key_le_trans by blast
  show "key_le lc sortBy y x"
    if "x \<in> set tasks" "y \<in> set tasks" "compare_tasks lc sortBy sortOrder x y \<le> 0" for x y
    using that assms compare_tasks_desc [of sortBy x y sortOrder lc] by auto
  show "key_le lc sortBy x y"
    if "x \<in> set tasks" "y \<in> set tasks" "\<not> compare_tasks lc sortBy sortOrder x y \<le> 0" for x y
    using that assms compare_tasks_desc [of sortBy x y sortOrder lc]
      key_le_total [of lc sortBy x y]
    by auto
qed

text \<open>Titles that differ only in case compare as equal.\<close>

lemma compare_titles_ignoring_case:
  assumes "title a = Some s" "title b = Some s'" "lc s = lc s'"
  shows "compare_tasks lc Title sortOrder a b = 0"
  using assms by (simp add: compare_tasks_def sort_values_def lowered_def)

lemma undated_after_dated:
  assumes "sorted_wrt (key_le lc DueDate) res" "i < j" "j < length res"
    "dueDate (res ! i) = None" "dueDate (res ! j) = Some d"
  shows "253402214400000 \<le> d"
proof -
  have "key_le lc DueDate (res ! i) (res ! j)"
    using assms(1-3) by (simp add: sorted_wrt_iff_nth_less)
  then show ?thesis using assms(4,5) by (simp add: key_le_def)
qed

text \<open>
  C2 (amended). For every list of tasks whose priorities are not names of properties
  inherited from \<^verbatim>\<open>Object.prototype\<close> (every priority the schema admits is such),
  every sort key of the sort menu and both orders, \<^verbatim>\<open>sortTasks\<close> returns a
  permutation of the input that is sorted by the chosen key in the chosen direction:
  priority by its numeric rank, titles case-insensitively (by their lower-cased form,
  whatever function the engine's \<^verbatim>\<open>toLowerCase\<close> is), and a task with no due date as
  the date 9999-12-31, so that in ascending due-date order no task without a due date
  precedes a task that is due before 9999-12-31.
\<close>

theorem sortTasks_sorted_permutation:
  assumes "sortBy = Priority \<longrightarrow> (\<forall>t\<in>set tasks. priority t \<notin> set Object_prototype_keys)"
  shows "mset (sortTasks lc tasks sortBy sortOrder) = mset tasks \<and>
    (sortOrder = str ''asc'' \<longrightarrow>
       sorted_wrt (key_le lc sortBy) (sortTasks lc tasks sortBy sortOrder)) \<and>
    (sortOrder = str ''desc'' \<longrightarrow>
       sorted_wrt (\<lambda>a b. key_le lc sortBy b a) (sortTasks lc tasks sortBy sortOrder)) \<and>
    (sortBy = DueDate \<and> sortOrder = str ''asc'' \<longrightarrow>
       (\<forall>i j d. i < j \<and> j < length tasks \<and>
          dueDate (sortTasks lc tasks sortBy sortOrder ! i) = None \<and>
          dueDate (sortTasks lc tasks sortBy sortOrder ! j) = Some d \<longrightarrow>
          253402214400000 \<le> d))"
proof -
  have len: "length (sortTasks lc tasks sortBy sortOrder) = length tasks"
    by (metis mset_array_sort size_mset sortTasks_def)
  have "mset (sortTasks lc tasks sortBy sortOrder) = mset tasks"
    by (simp add: sortTasks_def mset_array_sort)
  moreover have "sorted_wrt (key_le lc sortBy) (sortTasks lc tasks sortBy sortOrder)"
    if "sortOrder = str ''asc''"
    using sortTasks_asc [OF assms, of lc] that by simp
  moreover have "sorted_wrt (\<lambda>a b. key_le lc sortBy b a) (sortTasks lc tasks sortBy sortOrder)"
    if "sortOrder = str ''desc''"
    using sortTasks_desc [OF assms, of sortOrder lc] that by simp
  moreover have "253402214400000 \<le> d"
    if "sortBy = DueDate \<and> sortOrder = str ''asc''" "i < j \<and> j < length tasks \<and>
          dueDate (sortTasks lc tasks sortBy sortOrder ! i) = None \<and>
          dueDate (sortTasks lc tasks sortBy sortOrder ! j) = Some d" for i j d
    using undated_after_dated [of lc "sortTasks lc tasks sortBy sortOrder" i j d]
      sortTasks_asc [OF assms, of lc] that len by simp
  ultimately show ?thesis by blast
qed

text \<open>
  Instances: three tasks by priority, descending; two tasks by due date, ascending; and
  four tasks by title, ascending and descending, where the order of the lower-cased titles
  (none, \<^verbatim>\<open>apple\<close>, \<^verbatim>\<open>Buy Milk\<close>, \<^verbatim>\<open>Zoo\<close>) differs from the order of the titles
  as they are written.
\<close>

lemmas sort_eval = sortTasks_def array_sort_def compare_tasks_def sort_values_def
  due_value_def sentinel_date_def getPriorityValue_def get_property_def priorities_def
  Object_prototype_keys_def lowered_def ascii_toLowerCase_def str_def

theorem sortTasks_sorted_permutation_witness:
  "(mset (sortTasks ascii_toLowerCase demo_by_priority Priority (str ''desc'')) =
      mset demo_by_priority \<and>
    sorted_wrt (\<lambda>a b. key_le ascii_toLowerCase Priority b a)
      (sortTasks ascii_toLowerCase demo_by_priority Priority (str ''desc'')) \<and>
    map task_id (sortTasks ascii_toLowerCase demo_by_priority Priority (str ''desc'')) =
      [5, 6, 1]) \<and>
   (mset (sortTasks ascii_toLowerCase demo_by_due DueDate (str ''asc'')) = mset demo_by_due \<and>
    sorted_wrt (key_le ascii_toLowerCase DueDate)
      (sortTasks ascii_toLowerCase demo_by_due DueDate (str ''asc'')) \<and>
    map task_id (sortTasks ascii_toLowerCase demo_by_due DueDate (str ''asc'')) = [8, 1]) \<and>
   (mset (sortTasks ascii_toLowerCase demo_by_title Title (str ''asc'')) = mset demo_by_title \<and>
    sorted_wrt (key_le ascii_toLowerCase Title)
      (sortTasks ascii_toLowerCase demo_by_title Title (str ''asc'')) \<and>
    map title (sortTasks ascii_toLowerCase demo_by_title Title (str ''asc'')) =
      [None, Some (str ''apple''), Some (str ''Buy Milk''), Some (str ''Zoo'')]) \<and>
   (sorted_wrt (\<lambda>a b. key_le ascii_toLowerCase Title b a)
      (sortTasks ascii_toLowerCase demo_by_title Title (str ''desc'')) \<and>
    map title (sortTasks ascii_toLowerCase demo_by_title Title (str ''desc'')) =
      [Some (str ''Zoo''), Some (str ''Buy Milk''), Some (str ''apple''), None])"
proof -
  have h1: "Priority = Priority \<longrightarrow>
      (\<forall>t\<in>set demo_by_priority. priority t \<notin> set Object_prototype_keys)"
    by (simp add: demo_by_priority_def demo_task_def Object_prototype_keys_def)
  have h2: "DueDate = Priority \<longrightarrow>
      (\<forall>t\<in>set demo_by_due. priority t \<notin> set Object_prototype_keys)"
    by simp
  have h3: "Title = Priority \<longrightarrow>
      (\<forall>t\<in>set demo_by_title. priority t \<notin> set Object_prototype_keys)"
    by simp
  have e1: "map task_id (sortTasks ascii_toLowerCase demo_by_priority Priority (str ''desc'')) =
      [5, 6, 1]"
    by (simp add: sort_eval demo_by_priority_def demo_task_def)
  have e2: "map task_id (sortTasks ascii_toLowerCase demo_by_due DueDate (str ''asc'')) = [8, 1]"
    by (simp add: sort_eval demo_by_due_def demo_task_def)
  have e3: "map title (sortTasks ascii_toLowerCase demo_by_title Title (str ''asc'')) =
      [None, Some (str ''apple''), Some (str ''Buy Milk''), Some (str ''Zoo'')]"
    by (simp add: sort_eval demo_by_title_def demo_task_def)
  have e4: "map title (sortTasks ascii_toLowerCase demo_by_title Title (str ''desc'')) =
      [Some (str ''Zoo''), Some (str ''Buy Milk''), Some (str ''apple''), None]"
    by (simp add: sort_eval demo_by_title_def demo_task_def)
  show ?thesis
    using sortTasks_sorted_permutation [OF h1, of ascii_toLowerCase "str ''desc''"]
      sortTasks_sorted_permutation [OF h2, of ascii_toLowerCase "str ''asc''"]
      sortTasks_sorted_permutation [OF h3, of ascii_toLowerCase "str ''asc''"]
      sortTasks_sorted_permutation [OF h3, of ascii_toLowerCase "str ''desc''"] e1 e2 e3 e4
    by simp
qed

text \<open>
  Titles are compared by code unit: a title that starts with an emoji outside the basic
  plane (U+1F600, the surrogates D83D and DE00) comes before one that starts with the
  fullwidth tilde (U+FF5E), whatever the code points are.
\<close>

lemma sortTasks_by_code_units:
  assumes "lc [0xFF5E] = [0xFF5E]" "lc [0xD83D, 0xDE00] = [0xD83D, 0xDE00]"
  shows "map title (sortTasks lc [demo_task\<lparr>title := Some [0xFF5E]\<rparr>,
      demo_task\<lparr>title := Some [0xD83D, 0xDE00]\<rparr>] Title (str ''asc'')) =
    [Some [0xD83D, 0xDE00], Some [0xFF5E]]"
  using assms
  by (simp add: sortTasks_def array_sort_def compare_tasks_def sort_values_def lowered_def)

text \<open>
  The restriction on the priorities is needed: against the function that an inherited
  name yields, every comparison with a rank is false, the comparator answers 0, and the
  list stays as it is.
\<close>

lemma sortTasks_inherited_priority:
  "map priority (sortTasks lc [demo_task\<lparr>priority := str ''urgent''\<rparr>,
      demo_task\<lparr>priority := str ''constructor''\<rparr>, demo_task] Priority (str ''asc'')) =
   [str ''urgent'', str ''constructor'', str ''low'']"
  by (simp add: sortTasks_def array_sort_def compare_tasks_def sort_values_def
      getPriorityValue_def get_property_def priorities_def Object_prototype_keys_def
      demo_task_def)

text \<open>
  C2 as stated fails: in ascending due-date order a task with no due date is sorted
  before the task due on 10000-01-01, so it does not sort after every dated task.
\<close>

theorem sortTasks_undated_counterexample:
  "sortTasks ascii_toLowerCase [demo_late, demo_task] DueDate (str ''asc'') =
     [demo_task, demo_late] \<and>
   dueDate demo_task = None \<and> dueDate demo_late = Some 253402300800000"
  by (simp add: sortTasks_def array_sort_def compare_tasks_def sort_values_def due_value_def
      sentinel_date_def demo_late_def demo_task_def)

subsection \<open>Double arithmetic\<close>

lemma bit_length_0: "bit_length 0 = 0"
  by (simp add: bit_length.simps)

lemma bit_length_pos: "0 < n \<Longrightarrow> bit_length n = Suc (bit_length (n div 2))"
  by (subst bit_length.simps) simp

lemma bit_length_bounds:
  "0 < n \<Longrightarrow> 2 ^ (bit_length n - 1) \<le> n \<and> n < 2 ^ bit_length n"
proof (induction n rule: bit_length.induct)
  case (1 n)
  show ?case
  proof (cases "n div 2 = 0")
    case True
    with "1.prems" have "n = 1" by (simp add: div_eq_0_iff) 
    then show ?thesis by (simp add: bit_length_pos bit_length_0)
  next
    case False
    then have IH: "2 ^ (bit_length (n div 2) - 1) \<le> n div 2 \<and> n div 2 < 2 ^ bit_length (n div 2)"
      using "1.IH" "1.prems" by simp
    have pos: "0 < bit_length (n div 2)"
      using False by (simp add: bit_length_pos)
    then obtain k where k: "bit_length (n div 2) = Suc k"
      by (cases "bit_length (n div 2)") auto
    have bl: "bit_length n = Suc (Suc k)"
      using "1.prems" k by (simp add: bit_length_pos)
    from IH k have "2 ^ k \<le> n div 2" "n div 2 < 2 * 2 ^ k" by simp_all
    then have "2 * 2 ^ k \<le> n" "n < 2 * (2 * 2 ^ k)" by linarith+
    then show ?thesis by (simp add: bl)
  qed
qed

lemma ilog2_bounds:
  assumes n: "0 < n" and d: "0 < d"
  shows "2 powi (ilog2 n d) \<le> real n / real d \<and> real n / real d < 2 powi (ilog2 n d + 1)"
proof -
  define bn where "bn = bit_length n"
  define bd where "bd = bit_length d"
  define k where "k = int bn - int bd"
  have bn: "2 ^ (bn - 1) \<le> n" "n < 2 ^ bn" and bd: "2 ^ (bd - 1) \<le> d" "d < 2 ^ bd"
    using bit_length_bounds [OF n] bit_length_bounds [OF d] by (simp_all add: bn_def bd_def)
  have bn_pos: "0 < bn" using bn(2) n by (cases bn) auto
  have bd_pos: "0 < bd" using bd(2) d by (cases bd) auto
  have rn: "2 powi (int bn - 1) \<le> real n" "real n < 2 powi (int bn)"
  proof -
    have e: "int bn - 1 = int (bn - 1)" using bn_pos by linarith
    have "2 powi (int bn - 1) = (2::real) ^ (bn - 1)"
      unfolding e by (rule power_int_of_nat)
    also have "\<dots> = real (2 ^ (bn - 1))" by simp
    also have "\<dots> \<le> real n" using bn(1) by (rule of_nat_mono)
    finally show "2 powi (int bn - 1) \<le> real n" .
    have "real n < real (2 ^ bn)" using bn(2) by (simp only: of_nat_less_iff)
    also have "\<dots> = 2 ^ bn" by simp
    also have "\<dots> = 2 powi (int bn)" by (rule power_int_of_nat [symmetric])
    finally show "real n < 2 powi (int bn)" .
  qed
  have rd: "2 powi (int bd - 1) \<le> real d" "real d < 2 powi (int bd)"
  proof -
    have e: "int bd - 1 = int (bd - 1)" using bd_pos by linarith
    have "2 powi (int bd - 1) = (2::real) ^ (bd - 1)"
      unfolding e by (rule power_int_of_nat)
    also have "\<dots> = real (2 ^ (bd - 1))" by simp
    also have "\<dots> \<le> real d" using bd(1) by (rule of_nat_mono)
    finally show "2 powi (int bd - 1) \<le> real d" .
    have "real d < real (2 ^ bd)" using bd(2) by (simp only: of_nat_less_iff)
    also have "\<dots> = 2 ^ bd" by simp
    also have "\<dots> = 2 powi (int bd)" by (rule power_int_of_nat [symmetric])
    finally show "real d < 2 powi (int bd)" .
  qed
  have dpos: "0 < real d" using d by simp
  have upper: "real n / real d < 2 powi (k + 1)"
  proof -
    have "real n < 2 powi (int bn)" by (rule rn)
    also have "\<dots> = 2 powi (k + 1) * 2 powi (int bd - 1)"
      using power_int_add [of "2::real" "k + 1" "int bd - 1"] by (simp add: k_def)
    also have "\<dots> \<le> 2 powi (k + 1) * real d"
      using rd(1) by (simp add: mult_left_mono)
    finally show ?thesis using dpos by (simp add: pos_divide_less_eq)
  qed
  have lower: "2 powi (k - 1) < real n / real d"
  proof -
    have "2 powi (k - 1) * real d < 2 powi (k - 1) * 2 powi (int bd)"
      using rd(2) by (simp add: mult_strict_left_mono)
    also have "\<dots> = 2 powi (int bn - 1)"
      using power_int_add [of "2::real" "k - 1" "int bd"] by (simp add: k_def)
    also have "\<dots> \<le> real n" by (rule rn)
    finally show ?thesis using dpos by (simp add: pos_less_divide_eq)
  qed
  have test: "(if 0 \<le> k then d * 2 ^ nat k \<le> n else d \<le> n * 2 ^ nat (- k)) \<longleftrightarrow>
      2 powi k \<le> real n / real d"
  proof (cases "0 \<le> k")
    case True
    have "d * 2 ^ nat k \<le> n \<longleftrightarrow> real (d * 2 ^ nat k) \<le> real n"
      by (simp only: of_nat_le_iff)
    also have "\<dots> \<longleftrightarrow> 2 powi k * real d \<le> real n"
      using True by (simp add: power_int_def mult.commute)
    also have "\<dots> \<longleftrightarrow> 2 powi k \<le> real n / real d"
      using dpos by (simp add: pos_le_divide_eq)
    finally show ?thesis using True by simp
  next
    case False
    have "d \<le> n * 2 ^ nat (- k) \<longleftrightarrow> real d \<le> real (n * 2 ^ nat (- k))"
      by (simp only: of_nat_le_iff)
    also have "\<dots> \<longleftrightarrow> real d \<le> real n * 2 powi (- k)"
      using False by (simp add: power_int_def)
    also have "\<dots> \<longleftrightarrow> 2 powi k * real d \<le> real n"
    proof -
      have p: "0 < (2::real) powi k" by simp
      have "real n * 2 powi (- k) = real n / 2 powi k"
        by (simp add: power_int_minus divide_inverse)
      then show ?thesis using p by (simp add: pos_le_divide_eq mult.commute)
    qed
    also have "\<dots> \<longleftrightarrow> 2 powi k \<le> real n / real d"
      using dpos by (simp add: pos_le_divide_eq)
    finally show ?thesis using False by simp
  qed
  have il: "ilog2 n d = (if 2 powi k \<le> real n / real d then k else k - 1)"
    unfolding test [symmetric] by (simp only: ilog2_def Let_def k_def bn_def bd_def)
  show ?thesis
  proof (cases "2 powi k \<le> real n / real d")
    case True
    then show ?thesis using upper by (simp add: il)
  next
    case False
    then show ?thesis using lower by (simp add: il)
  qed
qed

lemma round_half_even_le:
  assumes "0 < d" "n \<le> M * d"
  shows "round_half_even n d \<le> M"
proof -
  have q: "n div d \<le> M"
    using assms by (metis div_le_mono div_mult_self_is_m)
  show ?thesis
  proof (cases "n div d = M")
    case True
    have "n = M * d + n mod d"
      using True by (metis div_mult_mod_eq)
    then have "n mod d = 0" using assms(2) by linarith
    then show ?thesis using assms(1) True by (simp add: round_half_even_def Let_def)
  next
    case False
    then have "n div d + 1 \<le> M" using q by linarith
    then show ?thesis by (simp add: round_half_even_def Let_def)
  qed
qed

lemma round_half_even_upper: "round_half_even n d \<le> n div d + 1"
  by (simp add: round_half_even_def Let_def)

lemma to_double_scaled:
  assumes n: "0 < n" and d: "0 < d"
  shows "\<exists>N D. 0 < D \<and> real N / real D = real n / real d * 2 powi (52 - ilog2 n d) \<and>
     dval (to_double n d) = real (round_half_even N D) * 2 powi (ilog2 n d - 52) \<and>
     0 < snd (to_double n d)"
proof (cases "0 \<le> 52 - ilog2 n d")
  case True
  define s where "s = 52 - ilog2 n d"
  have td: "to_double n d = (round_half_even (n * 2 ^ nat s) d, 2 ^ nat s)"
    using n True by (simp add: to_double_def Let_def s_def)
  have p: "real (2 ^ nat s) = 2 powi s"
    using True by (simp add: power_int_def s_def)
  have m: "(2::real) powi (ilog2 n d - 52) = 1 / 2 powi s"
    using power_int_minus_divide [of "2::real" s] by (simp add: s_def)
  have "real (n * 2 ^ nat s) / real d = real n / real d * 2 powi s"
    using p by simp
  moreover have "dval (to_double n d) = real (round_half_even (n * 2 ^ nat s) d) * 2 powi (ilog2 n d - 52)"
    unfolding td dval_def m using p by simp
  moreover have "0 < snd (to_double n d)" by (simp add: td)
  ultimately show ?thesis using d unfolding s_def by blast
next
  case False
  define t where "t = ilog2 n d - 52"
  have tpos: "0 < t" using False by (simp add: t_def)
  have td: "to_double n d = (round_half_even n (d * 2 ^ nat t) * 2 ^ nat t, 1)"
    using n False by (simp add: to_double_def Let_def t_def)
  have p: "real (2 ^ nat t) = 2 powi t"
    using tpos by (simp add: power_int_def)
  have m: "(2::real) powi (52 - ilog2 n d) = 1 / 2 powi t"
    using power_int_minus_divide [of "2::real" t] by (simp add: t_def)
  have "real n / real (d * 2 ^ nat t) = real n / real d * 2 powi (52 - ilog2 n d)"
    unfolding m using p by simp
  moreover have "dval (to_double n d) = real (round_half_even n (d * 2 ^ nat t)) * 2 powi (ilog2 n d - 52)"
    unfolding td dval_def using p by (simp add: t_def)
  moreover have "0 < snd (to_double n d)" by (simp add: td)
  moreover have "0 < d * 2 ^ nat t" using d by simp
  ultimately show ?thesis by blast
qed

lemma to_double_le_representable:
  assumes n: "0 < n" and d: "0 < d"
    and y: "y = real M * 2 powi j" and M: "2 ^ 52 \<le> M" "M < 2 ^ 53"
    and le: "real n / real d \<le> y"
  shows "dval (to_double n d) \<le> y"
proof -
  define E where "E = ilog2 n d"
  obtain N D where D: "0 < D"
    and sc: "real N / real D = real n / real d * 2 powi (52 - E)"
    and dv: "dval (to_double n d) = real (round_half_even N D) * 2 powi (E - 52)"
    using to_double_scaled [OF n d] unfolding E_def by blast
  have lo: "2 powi E \<le> real n / real d" and hi: "real n / real d < 2 powi (E + 1)"
    using ilog2_bounds [OF n d] by (simp_all add: E_def)
  have Mr: "2 ^ 52 \<le> real M" "real M < 2 ^ 53"
  proof -
    have "real (2 ^ 52) \<le> real M" using M(1) by (rule of_nat_mono)
    then show "2 ^ 52 \<le> real M" by simp
    have "real M < real (2 ^ 53)" using M(2) by (simp only: of_nat_less_iff)
    then show "real M < 2 ^ 53" by simp
  qed
  have pj: "0 < (2::real) powi j" by simp
  have p53: "(2::real) powi (j + 53) = 2 ^ 53 * 2 powi j"
    using power_int_add [of "2::real" 53 j] by (simp add: add.commute)
  have p52: "(2::real) powi (j + 52) = 2 ^ 52 * 2 powi j"
    using power_int_add [of "2::real" 52 j] by (simp add: add.commute)
  have Ej: "E \<le> j + 52"
  proof (rule ccontr)
    assume "\<not> E \<le> j + 52"
    then have "j + 53 \<le> E" by simp
    then have "(2::real) powi (j + 53) \<le> 2 powi E"
      by (rule power_int_increasing) simp
    also have "\<dots> \<le> y" using lo le by simp
    also have "\<dots> < 2 ^ 53 * 2 powi j"
      unfolding y using Mr(2) pj by (simp add: mult_strict_right_mono)
    finally show False by (simp add: p53)
  qed
  have Dr: "0 < real D" using D by simp
  have r53: "round_half_even N D \<le> 2 ^ 53"
  proof -
    have "real n / real d * 2 powi (52 - E) < 2 powi (E + 1) * 2 powi (52 - E)"
      by (rule mult_strict_right_mono [OF hi]) simp
    then have "real N / real D < 2 powi (E + 1) * 2 powi (52 - E)"
      by (simp only: sc)
    also have "\<dots> = 2 ^ 53"
      using power_int_add [of "2::real" "E + 1" "52 - E"] by simp
    finally have "real N < 2 ^ 53 * real D"
      using Dr by (simp add: pos_divide_less_eq)
    then have "real N < real (2 ^ 53 * D)" by simp
    then have "N < 2 ^ 53 * D" by (simp only: of_nat_less_iff)
    then have "N div D < 2 ^ 53"
      using D by (simp add: less_mult_imp_div_less mult.commute)
    then show ?thesis
      using round_half_even_upper [of N D] by linarith
  qed
  show ?thesis
  proof (cases "E = j + 52")
    case True
    have "real n / real d * 2 powi (52 - E) \<le> y * 2 powi (52 - E)"
      by (rule mult_right_mono [OF le]) simp
    then have "real N / real D \<le> y * 2 powi (52 - E)"
      by (simp only: sc)
    also have "\<dots> = real M * (2 powi j * 2 powi (- j))"
      using True by (simp add: y)
    also have "2 powi j * 2 powi (- j) = (1::real)"
      using power_int_add [of "2::real" j "- j"] by simp
    finally have "real N \<le> real M * real D"
      using Dr by (simp add: pos_divide_le_eq)
    then have "real N \<le> real (M * D)" by simp
    then have "N \<le> M * D" by (simp only: of_nat_le_iff)
    then have "round_half_even N D \<le> M"
      using D by (intro round_half_even_le)
    then have "real (round_half_even N D) \<le> real M" by (rule of_nat_mono)
    then have "real (round_half_even N D) * 2 powi j \<le> real M * 2 powi j"
      using pj by (simp add: mult_right_mono)
    then show ?thesis using True by (simp add: dv y)
  next
    case False
    then have E1: "E + 1 \<le> j + 52" using Ej by simp
    have "real (round_half_even N D) \<le> real (2 ^ 53)"
      using r53 by (rule of_nat_mono)
    then have "real (round_half_even N D) \<le> 2 ^ 53" by simp
    then have "dval (to_double n d) \<le> 2 ^ 53 * 2 powi (E - 52)"
      unfolding dv by (simp add: mult_right_mono)
    also have "\<dots> = 2 powi (E + 1)"
      using power_int_add [of "2::real" 53 "E - 52"] by (simp add: add.commute)
    also have "\<dots> \<le> 2 powi (j + 52)"
      using E1 by (rule power_int_increasing) simp
    also have "\<dots> \<le> real M * 2 powi j"
      unfolding p52 using Mr(1) pj by (simp add: mult_right_mono)
    finally show ?thesis by (simp add: y)
  qed
qed

lemma to_double_zero: "to_double 0 d = (0, 1)"
  by (simp add: to_double_def)

lemma to_double_den_pos: "0 < d \<Longrightarrow> 0 < snd (to_double n d)"
  using to_double_scaled [of n d] by (cases "n = 0") (auto simp: to_double_zero)

lemma to_double_le_1:
  assumes "0 < d" "n \<le> d"
  shows "dval (to_double n d) \<le> 1"
proof (cases "n = 0")
  case True
  then show ?thesis by (simp add: to_double_zero dval_def)
next
  case False
  have "real n / real d \<le> 1" using assms by simp
  moreover have "(1::real) = real (2 ^ 52) * 2 powi (- 52)" by simp
  ultimately show ?thesis
    using to_double_le_representable [of n d 1 "2 ^ 52" "- 52"] False assms(1) by simp
qed

lemma to_double_le_100:
  assumes "0 < d" "real n / real d \<le> 100"
  shows "dval (to_double n d) \<le> 100"
proof (cases "n = 0")
  case True
  then show ?thesis by (simp add: to_double_zero dval_def)
next
  case False
  have "(100::real) = real (25 * 2 ^ 48) * 2 powi (- 46)" by simp
  then show ?thesis
    using to_double_le_representable [of n d 100 "25 * 2 ^ 48" "- 46"] False assms by simp
qed

lemma Math_round_le:
  assumes "0 < snd x" "dval x \<le> real K"
  shows "Math_round x \<le> K"
proof -
  have "real (fst x) \<le> real K * real (snd x)"
    using assms by (simp add: dval_def pos_divide_le_eq)
  then have "real (fst x) \<le> real (K * snd x)" by simp
  then have "fst x \<le> K * snd x" by (simp only: of_nat_le_iff)
  then have "2 * fst x + snd x < (K + 1) * (2 * snd x)"
    using assms(1) by (simp add: algebra_simps)
  then have "(2 * fst x + snd x) div (2 * snd x) < K + 1"
    using assms(1) by (simp add: less_mult_imp_div_less)
  then show ?thesis by (simp add: Math_round_def)
qed

subsection \<open>Statistics\<close>

lemma completion_le_100:
  assumes "c \<le> t" "0 < t"
  shows "Math_round (double_mul (double_div c t) 100) \<le> 100"
proof -
  define q where "q = to_double c t"
  define p where "p = to_double (fst q * 100) (snd q)"
  have q1: "dval q \<le> 1" and qd: "0 < snd q"
    using to_double_le_1 [OF assms(2,1)] to_double_den_pos [OF assms(2)] by (simp_all add: q_def)
  have "real (fst q * 100) / real (snd q) = dval q * 100"
    by (simp add: dval_def)
  then have "real (fst q * 100) / real (snd q) \<le> 100"
    using q1 by simp
  then have "dval p \<le> 100" and "0 < snd p"
    using to_double_le_100 [OF qd] to_double_den_pos [OF qd] by (simp_all add: p_def)
  then have "Math_round p \<le> 100"
    using Math_round_le [of p 100] by simp
  then show ?thesis
    by (simp add: double_mul_def double_div_def q_def p_def)
qed

text \<open>
  The rounding is the one of doubles: 29 of 200 is 14.5 percent exactly, but
  \<^verbatim>\<open>(29 / 200) * 100\<close> is \<^verbatim>\<open>14.499999999999998\<close>, which rounds to 14.
\<close>

lemma completion_29_of_200: "Math_round (double_mul (double_div 29 200) 100) = 14"
proof -
  have a: "to_double 29 200 = (5224175567749775, 36028797018963968)"
    by (simp add: to_double_def ilog2_def round_half_even_def bit_length_pos bit_length_0)
  have b: "to_double 522417556774977500 36028797018963968 = (8162774324609023, 562949953421312)"
    by (simp add: to_double_def ilog2_def round_half_even_def bit_length_pos bit_length_0)
  show ?thesis
    by (simp add: double_mul_def double_div_def a b Math_round_def)
qed

lemma overdue_le_pending:
  "length (filter (\<lambda>t. \<not> isDone t \<and> P t) ts) \<le> length ts - length (filter isDone ts)"
proof -
  have "length (filter (\<lambda>t. \<not> isDone t \<and> P t) ts) \<le> length (filter (\<lambda>t. \<not> isDone t) ts)"
    by (induction ts) auto
  moreover have "length (filter isDone ts) + length (filter (\<lambda>t. \<not> isDone t) ts) = length ts"
    by (rule sum_length_filter_compl)
  ultimately show ?thesis by linarith
qed

text \<open>
  C9. For every list of tasks the statistics satisfy: completed plus pending is the
  total, the total is the length of the list, overdue is at most pending, the completion
  rate is a whole number between 0 and 100, and it is 0 for the empty list.
\<close>

theorem getTaskStats_invariants:
  "completed (getTaskStats now tasks) + pending (getTaskStats now tasks) =
     total' (getTaskStats now tasks) \<and>
   total' (getTaskStats now tasks) = length tasks \<and>
   overdue (getTaskStats now tasks) \<le> pending (getTaskStats now tasks) \<and>
   completionRate (getTaskStats now tasks) \<le> 100 \<and>
   completionRate (getTaskStats now []) = 0"
proof -
  have c: "length (filter isDone tasks) \<le> length tasks" by simp
  have "completionRate (getTaskStats now tasks) \<le> 100"
    using completion_le_100 [OF c] by (simp add: getTaskStats_def Let_def)
  moreover have "overdue (getTaskStats now tasks) \<le> pending (getTaskStats now tasks)"
    using overdue_le_pending [of "\<lambda>t. isOverdue now (dueDate t)" tasks]
    by (simp add: getTaskStats_def Let_def)
  moreover have "completed (getTaskStats now tasks) + pending (getTaskStats now tasks) =
     total' (getTaskStats now tasks)"
    using c by (simp add: getTaskStats_def Let_def)
  ultimately show ?thesis by (simp add: getTaskStats_def Let_def)
qed

subsection \<open>Lookups on unknown input\<close>

text \<open>
  The two table lookups fall back to their default entry on every unknown string, and
  \<^verbatim>\<open>getPriorityValue\<close> falls back to 2 on every unknown string that is not the name
  of an inherited property.
\<close>

lemma getCategoryInfo_unknown:
  assumes "c \<notin> {str ''work'', str ''personal'', str ''health'', str ''finance'',
     str ''shopping'', str ''education'', str ''other''}"
  shows "getCategoryInfo c = \<lparr>opt_value = str ''other'', opt_label = str ''Other'',
     opt_icon = [0xD83D, 0xDCDD], opt_color = str ''gray''\<rparr>"
  using assms by (auto simp: getCategoryInfo_def TASK_CATEGORIES_def)

lemma getPriorityInfo_unknown:
  assumes "p \<notin> {str ''low'', str ''medium'', str ''high'', str ''urgent''}"
  shows "getPriorityInfo p = \<lparr>opt_value = str ''medium'', opt_label = str ''Medium'',
     opt_icon = [0xD83D, 0xDFE1], opt_color = str ''yellow''\<rparr>"
  using assms by (auto simp: getPriorityInfo_def TASK_PRIORITIES_def)

lemma getPriorityValue_unknown:
  assumes "p \<notin> {str ''low'', str ''medium'', str ''high'', str ''urgent''}"
    and "p \<notin> set Object_prototype_keys"
  shows "getPriorityValue p = Num 2"
  using assms by (simp add: getPriorityValue_def get_property_def priorities_def)

text \<open>
  C10. The claim is that \<^verbatim>\<open>getPriorityValue\<close> returns 2 for every input that is not
  one of the four priorities. At the input \<^verbatim>\<open>constructor\<close> the property read finds
  \<^verbatim>\<open>Object.prototype.constructor\<close>, a function and so truthy, and \<^verbatim>\<open>|| 2\<close> does
  not apply: the result is that function, not 2.
\<close>

theorem getPriorityValue_constructor:
  "str ''constructor'' \<notin> {str ''low'', str ''medium'', str ''high'', str ''urgent''} \<and>
   getPriorityValue (str ''constructor'') = Inherited (str ''constructor'') \<and>
   getPriorityValue (str ''constructor'') \<noteq> Num 2"
  by (simp add: getPriorityValue_def get_property_def priorities_def Object_prototype_keys_def)

subsection \<open>The pipeline and the heap\<close>

lemma filterTasks_heap_contents:
  "contents (filterTasks_heap lc env tasks filters) = filterTasks lc (heap env tasks) filters"
  by (simp add: contents_def filterTasks_heap_def filterTasks_def alloc_def)

lemma sortTasks_heap_contents:
  "contents (sortTasks_heap lc env tasks sortBy sortOrder) =
   sortTasks lc (heap env tasks) sortBy sortOrder"
  by (simp add: contents_def sortTasks_heap_def sortTasks_def alloc_def sort_in_place_def)

lemma getTaskStats_heap_result:
  "tasks < next_addr env \<Longrightarrow>
   fst (getTaskStats_heap env tasks) = getTaskStats (clock env) (heap env tasks)"
  by (simp add: getTaskStats_heap_def getTaskStats_def alloc_def Let_def)

lemma filterTasks_heap_unchanged:
  "unchanged env (snd (filterTasks_heap lc env tasks filters))"
  by (simp add: unchanged_def filterTasks_heap_def alloc_def)

lemma sortTasks_heap_unchanged:
  "unchanged env (snd (sortTasks_heap lc env tasks sortBy sortOrder))"
  by (simp add: unchanged_def sortTasks_heap_def alloc_def sort_in_place_def)

lemma getTaskStats_heap_unchanged: "unchanged env (snd (getTaskStats_heap env tasks))"
  by (simp add: unchanged_def getTaskStats_heap_def alloc_def Let_def)

text \<open>
  C4 (amended). Each of \<^verbatim>\<open>filterTasks\<close>, \<^verbatim>\<open>sortTasks\<close> and
  \<^verbatim>\<open>getTaskStats\<close> leaves the input list, and every other array that exists when it is
  called, unmodified. Two calls of \<^verbatim>\<open>filterTasks\<close> or of \<^verbatim>\<open>sortTasks\<close> on lists
  with the same elements and with the same other arguments return lists with the same
  elements. Two such calls of \<^verbatim>\<open>getTaskStats\<close> return the same total, completed,
  pending and completion rate, and the same statistics altogether when they are made at
  the same time: the overdue count depends on the task list and on the current time.
\<close>

theorem pipeline_pure:
  assumes "tasks < next_addr env" "tasks2 < next_addr env2" "heap env2 tasks2 = heap env tasks"
  shows "unchanged env (snd (filterTasks_heap lc env tasks filters)) \<and>
    unchanged env (snd (sortTasks_heap lc env tasks sortBy sortOrder)) \<and>
    unchanged env (snd (getTaskStats_heap env tasks)) \<and>
    contents (filterTasks_heap lc env2 tasks2 filters) =
      contents (filterTasks_heap lc env tasks filters) \<and>
    contents (sortTasks_heap lc env2 tasks2 sortBy sortOrder) =
      contents (sortTasks_heap lc env tasks sortBy sortOrder) \<and>
    (clock env2 = clock env \<longrightarrow>
      fst (getTaskStats_heap env2 tasks2) = fst (getTaskStats_heap env tasks)) \<and>
    total' (fst (getTaskStats_heap env2 tasks2)) = total' (fst (getTaskStats_heap env tasks)) \<and>
    completed (fst (getTaskStats_heap env2 tasks2)) =
      completed (fst (getTaskStats_heap env tasks)) \<and>
    pending (fst (getTaskStats_heap env2 tasks2)) = pending (fst (getTaskStats_heap env tasks)) \<and>
    completionRate (fst (getTaskStats_heap env2 tasks2)) =
      completionRate (fst (getTaskStats_heap env tasks))"
  using assms
  by (simp add: filterTasks_heap_unchanged sortTasks_heap_unchanged getTaskStats_heap_unchanged
      filterTasks_heap_contents sortTasks_heap_contents getTaskStats_heap_result)
     (simp add: getTaskStats_def Let_def)

text \<open>An instance: two heaps that hold the same list at different addresses.\<close>

theorem pipeline_pure_witness:
  "unchanged demo_env (snd (sortTasks_heap ascii_toLowerCase demo_env 0 DueDate (str ''asc''))) \<and>
   contents (sortTasks_heap ascii_toLowerCase demo_env2 3 DueDate (str ''asc'')) =
     contents (sortTasks_heap ascii_toLowerCase demo_env 0 DueDate (str ''asc'')) \<and>
   fst (getTaskStats_heap demo_env2 3) = fst (getTaskStats_heap demo_env 0) \<and>
   heap demo_env 0 = demo_by_due \<and>
   map task_id (contents (sortTasks_heap ascii_toLowerCase demo_env 0 DueDate (str ''asc''))) =
     [8, 1]"
proof -
  have h: "0 < next_addr demo_env" "3 < next_addr demo_env2" "heap demo_env2 3 = heap demo_env 0"
    "clock demo_env2 = clock demo_env"
    by (simp_all add: demo_env_def demo_env2_def)
  have e: "map task_id
      (contents (sortTasks_heap ascii_toLowerCase demo_env 0 DueDate (str ''asc''))) = [8, 1]"
    by (simp add: contents_def sortTasks_heap_def alloc_def sort_in_place_def demo_env_def
        array_sort_def compare_tasks_def sort_values_def due_value_def sentinel_date_def
        demo_by_due_def demo_task_def)
  show ?thesis
    using pipeline_pure [OF h(1,2,3), of ascii_toLowerCase demo_filters DueDate "str ''asc''"]
      h(4) e
    by (simp add: demo_env_def)
qed

text \<open>
  C4 as stated fails: two calls of \<^verbatim>\<open>getTaskStats\<close> on the same list, one before
  and one after the due date of a pending task, return different overdue counts.
\<close>

theorem getTaskStats_clock_counterexample:
  "heap (demo_env\<lparr>clock := 2500\<rparr>) 0 = heap demo_env 0 \<and>
   overdue (fst (getTaskStats_heap demo_env 0)) = 0 \<and>
   overdue (fst (getTaskStats_heap (demo_env\<lparr>clock := 2500\<rparr>) 0)) = 1"
  by (simp add: getTaskStats_heap_def alloc_def demo_env_def demo_by_due_def demo_task_def
      isOverdue_def Let_def)

subsection \<open>Overdue tasks\<close>








subsection \<open>Operations are scoped per user\<close>

lemma pre_save_fields [simp]:
  "task_id (pre_save now m t) = task_id t"
  "userId (pre_save now m t) = userId t"
  "isDone (pre_save now m t) = isDone t"
  by (simp_all add: pre_save_def)

lemma save_Inr:
  assumes "save V now db loaded this = Inr (t', db')"
  shows "task_id t' = task_id this" "userId t' = userId this" "isDone t' = isDone this"
    "db' = map (\<lambda>t. if task_id t = task_id this then t' else t) db"
  using assms by (auto simp: save_def Let_def split: list.splits if_splits)

lemma findOne_Some:
  "findOne db i u = Some t \<Longrightarrow> t \<in> set db \<and> task_id t = i \<and> userId t = u"
  by (auto simp: findOne_def find_Some_iff)

lemma findOne_None:
  "findOne db i u = None \<longleftrightarrow> \<not> (\<exists>t\<in>set db. task_id t = i \<and> userId t = u)"
  by (auto simp: findOne_def find_None_iff)

lemma filter_map_frame:
  "(\<And>t. t \<in> set xs \<Longrightarrow> f t = t \<or> (\<not> P t \<and> \<not> P (f t))) \<Longrightarrow> filter P (map f xs) = filter P xs"
proof (induction xs)
  case Nil
  then show ?case by simp
next
  case (Cons a xs)
  have "f a = a \<or> (\<not> P a \<and> \<not> P (f a))"
    using Cons.prems by simp
  moreover have "filter P (map f xs) = filter P xs"
    using Cons by simp
  ultimately show ?case by auto
qed

lemma filter_remove1_frame: "\<not> P t \<Longrightarrow> filter P (remove1 t xs) = filter P xs"
  by (induction xs) auto

lemma others_replace:
  assumes d: "distinct (map task_id db)" and f: "found \<in> set db"
    and u: "userId found = user_id req" "userId t' = user_id req"
  shows "others req (map (\<lambda>t. if task_id t = task_id found then t' else t) db) = others req db"
  unfolding others_def
proof (rule filter_map_frame)
  fix t assume t: "t \<in> set db"
  show "(if task_id t = task_id found then t' else t) = t \<or>
    (\<not> userId t \<noteq> user_id req \<and>
     \<not> userId (if task_id t = task_id found then t' else t) \<noteq> user_id req)"
  proof (cases "task_id t = task_id found")
    case True
    then have "t = found"
      using d f t by (meson distinct_map inj_onD)
    then show ?thesis using u True by simp
  next
    case False
    then show ?thesis by simp
  qed
qed

lemma save_others:
  assumes "distinct (map task_id db)" "findOne db i (user_id req) = Some task"
    "task_id this = task_id task" "userId this = userId task"
    "save V now db task this = Inr (t', db')"
  shows "others req db' = others req db" "userId t' = user_id req"
proof -
  have f: "task \<in> set db" "userId task = user_id req"
    using findOne_Some [OF assms(2)] by simp_all
  show u: "userId t' = user_id req"
    using save_Inr(2) [OF assms(5)] assms(4) f(2) by simp
  show "others req db' = others req db"
    using others_replace [OF assms(1) f(1) f(2) u] save_Inr(4) [OF assms(5)] assms(3) by simp
qed

lemma update_fields_ids [simp]:
  "task_id (fst (update_fields req t)) = task_id t"
  "userId (fst (update_fields req t)) = userId t"
  "completedAt (fst (update_fields req t)) = completedAt t"
  by (simp_all add: update_fields_def Let_def split: option.splits prod.splits)

lemma title_accepted:
  "nonblank_string v \<longleftrightarrow> truthy_value v \<and> (\<exists>x. call_trim v = Some x \<and> x \<noteq> [])"
  by (cases v) (auto simp: nonblank_string_def trim_Nil_iff)

lemma getTask_scoped: "scoped db req True (getTask db req, db)"
proof (cases "params_id req")
  case None
  then show ?thesis by (simp add: scoped_def getTask_def no_own_task_def)
next
  case (Some i)
  show ?thesis
  proof (cases "findOne db i (user_id req)")
    case None
    then have "no_own_task db req"
      using Some by (simp add: no_own_task_def findOne_None)
    then show ?thesis
      using None Some by (simp add: scoped_def getTask_def)
  next
    case (Some t)
    then have "\<not> no_own_task db req"
      using \<open>params_id req = Some i\<close> findOne_None [of db i "user_id req"]
      by (simp add: no_own_task_def)
    then show ?thesis
      using Some \<open>params_id req = Some i\<close> findOne_Some [OF Some]
      by (simp add: scoped_def getTask_def)
  qed
qed

lemma deleteTask_scoped: "scoped db req True (deleteTask db req)"
proof (cases "params_id req")
  case None
  then show ?thesis by (simp add: scoped_def deleteTask_def no_own_task_def)
next
  case (Some i)
  show ?thesis
  proof (cases "findOne db i (user_id req)")
    case None
    then have "no_own_task db req"
      using Some by (simp add: no_own_task_def findOne_None)
    then show ?thesis
      using None Some by (simp add: scoped_def deleteTask_def findOneAndDelete_def)
  next
    case (Some t)
    then have "others req (remove1 t db) = others req db"
      unfolding others_def using findOne_Some [OF Some] by (simp add: filter_remove1_frame)
    moreover have "\<not> no_own_task db req"
      using Some \<open>params_id req = Some i\<close> findOne_None [of db i "user_id req"]
      by (simp add: no_own_task_def)
    ultimately show ?thesis
      using Some \<open>params_id req = Some i\<close>
      by (simp add: scoped_def deleteTask_def findOneAndDelete_def)
  qed
qed

lemma saving_scoped:
  assumes d: "distinct (map task_id db)"
    and p: "params_id req = Some i" and f: "findOne db i (user_id req) = Some task"
    and ids: "task_id this = task_id task" "userId this = userId task"
    and r: "r = (case save V now db task this of
          Inr (task', db') \<Rightarrow> (Response ok (MessageTask m task'), db')
        | Inl CastError \<Rightarrow> (Response 400 (Message ''Invalid task ID''), db)
        | Inl (ValidationError messages) \<Rightarrow> (Response bad (pl messages), db))"
    and bad: "bad \<noteq> 404" "ok \<noteq> 404" "\<And>ms. payload_tasks (pl ms) = []"
  shows "scoped db req True r"
proof -
  have own: "\<not> no_own_task db req"
    using p f findOne_None [of db i "user_id req"] by (simp add: no_own_task_def)
  show ?thesis
  proof (cases "save V now db task this")
    case (Inl e)
    then show ?thesis
      using own r bad by (cases e) (simp_all add: scoped_def)
  next
    case (Inr x)
    obtain t' db' where x: "x = (t', db')" by (cases x)
    have "others req db' = others req db" "userId t' = user_id req"
      using save_others [OF d f ids] Inr x by simp_all
    then show ?thesis
      using own r bad Inr x by (simp add: scoped_def)
  qed
qed

lemma updateTask_scoped:
  assumes "distinct (map task_id db)"
  shows "scoped db req True (updateTask V now db req)"
proof (cases "params_id req")
  case None
  then show ?thesis by (simp add: scoped_def updateTask_def no_own_task_def)
next
  case (Some i)
  show ?thesis
  proof (cases "findOne db i (user_id req)")
    case None
    then have "no_own_task db req"
      using Some by (simp add: no_own_task_def findOne_None)
    then show ?thesis
      using None Some by (simp add: scoped_def updateTask_def)
  next
    case (Some task)
    show ?thesis
    proof (cases "snd (update_fields req task)")
      case Nil
      show ?thesis
        by (rule saving_scoped [OF assms \<open>params_id req = Some i\<close> Some,
              where this = "fst (update_fields req task)" and ok = 200 and bad = 400
                and m = "''Task updated successfully''"
                and pl = "MessageErrors ''Validation error''" and V = V and now = now])
           (simp_all add: updateTask_def save_assigned_def Nil Some \<open>params_id req = Some i\<close>)
    next
      case (Cons e es)
      have own: "\<not> no_own_task db req"
        using Some \<open>params_id req = Some i\<close> findOne_None [of db i "user_id req"]
        by (simp add: no_own_task_def)
      then show ?thesis
        using Some \<open>params_id req = Some i\<close> Cons
        by (simp add: scoped_def updateTask_def save_assigned_def)
    qed
  qed
qed

lemma toggleTask_scoped:
  assumes "distinct (map task_id db)"
  shows "scoped db req True (toggleTask V now db req)"
proof (cases "params_id req")
  case None
  then show ?thesis by (simp add: scoped_def toggleTask_def no_own_task_def)
next
  case (Some i)
  show ?thesis
  proof (cases "findOne db i (user_id req)")
    case None
    then have "no_own_task db req"
      using Some by (simp add: no_own_task_def findOne_None)
    then show ?thesis
      using None Some by (simp add: scoped_def toggleTask_def)
  next
    case (Some task)
    have own: "\<not> no_own_task db req"
      using Some \<open>params_id req = Some i\<close> findOne_None [of db i "user_id req"]
      by (simp add: no_own_task_def)
    show ?thesis
    proof (cases "toggleCompletion V now db task")
      case (Inl e)
      then show ?thesis
        using own Some \<open>params_id req = Some i\<close>
        by (cases e) (simp_all add: scoped_def toggleTask_def)
    next
      case (Inr x)
      obtain t' db' where x: "x = (t', db')" by (cases x)
      have "others req db' = others req db" "userId t' = user_id req"
        using save_others [OF assms Some, of "task\<lparr>isDone := \<not> isDone task\<rparr>" V now t' db'] Inr x
        by (simp_all add: toggleCompletion_def)
      then show ?thesis
        using own Some \<open>params_id req = Some i\<close> Inr x by (simp add: scoped_def toggleTask_def)
    qed
  qed
qed

lemma addSubTask_scoped:
  assumes "distinct (map task_id db)"
  shows "scoped db req (nonblank_string (body_title req)) (addSubTask V now db req)"
proof (cases "nonblank_string (body_title req)")
  case False
  then show ?thesis
    by (auto simp: scoped_def addSubTask_def title_accepted split: option.splits)
next
  case True
  then obtain x where x: "truthy_value (body_title req)" "call_trim (body_title req) = Some x"
      "x \<noteq> []"
    by (auto simp: title_accepted)
  show ?thesis
  proof (cases "params_id req")
    case None
    then show ?thesis using True x by (simp add: scoped_def addSubTask_def no_own_task_def)
  next
    case (Some i)
    show ?thesis
    proof (cases "findOne db i (user_id req)")
      case None
      then have "no_own_task db req"
        using Some by (simp add: no_own_task_def findOne_None)
      then show ?thesis
        using None Some True x by (simp add: scoped_def addSubTask_def)
    next
      case (Some task)
      have "scoped db req True (addSubTask V now db req)"
        by (rule saving_scoped [OF assms \<open>params_id req = Some i\<close> Some,
            where this = "task\<lparr>subTasks := subTasks task @
                [\<lparr>st_title = trim x, st_isDone = False, st_createdAt = now\<rparr>]\<rparr>"
              and ok = 201 and bad = 500 and m = "''Subtask added successfully''"
              and pl = "\<lambda>ms. Message ''Server error adding subtask''" and V = V and now = now])
           (use x Some \<open>params_id req = Some i\<close> in
             \<open>simp_all add: addSubTask_def addSubTask_method_def\<close>)
      then show ?thesis using True by simp
    qed
  qed
qed

text \<open>
  C5 (amended). In a collection with unique ids, each of \<^verbatim>\<open>getTask\<close>,
  \<^verbatim>\<open>updateTask\<close>, \<^verbatim>\<open>deleteTask\<close>, \<^verbatim>\<open>toggleTask\<close> and \<^verbatim>\<open>addSubTask\<close> answers
  404 exactly when the id of the request is a well-formed id, no task with this id belongs
  to the requesting user and, for \<^verbatim>\<open>addSubTask\<close>, the subtask title is a string that
  is not blank (a malformed id is answered with 400; before any task is looked up, a
  subtask title that is missing, falsy or blank is answered with 400 and a truthy one that
  is not a string with 500). No operation shows a task of another user, and none modifies
  or deletes one.
\<close>

theorem task_operations_scoped:
  assumes "distinct (map task_id db)" and "op \<noteq> CreateTask"
  shows "(status (fst (handle V now db op req)) = 404 \<longleftrightarrow>
       no_own_task db req \<and> params_id req \<noteq> None \<and>
       (op = AddSubTask \<longrightarrow> nonblank_string (body_title req))) \<and>
     (\<forall>t\<in>set (payload_tasks (payload (fst (handle V now db op req)))). userId t = user_id req) \<and>
     others req (snd (handle V now db op req)) = others req db"
proof (cases op)
  case CreateTask
  then show ?thesis using assms(2) by simp
next
  case GetTask
  then show ?thesis using getTask_scoped [of db req] by (simp add: scoped_def)
next
  case UpdateTask
  then show ?thesis using updateTask_scoped [OF assms(1), of req V now] by (simp add: scoped_def)
next
  case DeleteTask
  then show ?thesis using deleteTask_scoped [of db req] by (simp add: scoped_def)
next
  case ToggleTask
  then show ?thesis using toggleTask_scoped [OF assms(1), of req V now] by (simp add: scoped_def)
next
  case AddSubTask
  then show ?thesis using addSubTask_scoped [OF assms(1), of req V now] by (simp add: scoped_def)
qed

text \<open>
  Instances: a user toggles a task of another user and is answered 404; a user adds a
  subtask to a task of another user and is answered 404, or 500 when the title is the
  number 5; a user renames a task of their own.
\<close>

theorem task_operations_scoped_witness:
  "(status (fst (handle dueDate_validator 50 demo_db ToggleTask demo_foreign)) = 404 \<and>
    no_own_task demo_db demo_foreign \<and>
    others demo_foreign (snd (handle dueDate_validator 50 demo_db ToggleTask demo_foreign)) =
      others demo_foreign demo_db) \<and>
   (status (fst (handle dueDate_validator 50 demo_db AddSubTask demo_subtask)) = 404 \<and>
    nonblank_string (body_title demo_subtask)) \<and>
   (status (fst (handle dueDate_validator 50 demo_db AddSubTask demo_subtask_number)) = 500 \<and>
    \<not> nonblank_string (body_title demo_subtask_number) \<and>
    snd (handle dueDate_validator 50 demo_db AddSubTask demo_subtask_number) = demo_db) \<and>
   (status (fst (handle dueDate_validator 50 demo_db UpdateTask demo_rename)) = 200 \<and>
    others demo_rename (snd (handle dueDate_validator 50 demo_db UpdateTask demo_rename)) =
      others demo_rename demo_db)"
proof -
  have d: "distinct (map task_id demo_db)"
    by (simp add: demo_db_def)
  have n: "no_own_task demo_db demo_foreign" "no_own_task demo_db demo_subtask"
    by (simp_all add: no_own_task_def demo_db_def demo_subtask_def demo_foreign_def
        demo_request_def demo_task_def)
  have p: "params_id demo_foreign \<noteq> None" "params_id demo_subtask \<noteq> None"
    by (simp_all add: demo_subtask_def demo_foreign_def)
  have t: "nonblank_string (body_title demo_subtask)"
    "\<not> nonblank_string (body_title demo_subtask_number)"
    by (simp_all add: nonblank_string_def demo_subtask_def demo_subtask_number_def is_space_def
        str_def)
  have e: "handle dueDate_validator 50 demo_db AddSubTask demo_subtask_number =
      (Response 500 (Message ''Server error adding subtask''), demo_db)"
    by (simp add: addSubTask_def demo_subtask_number_def)
  have u: "status (fst (handle dueDate_validator 50 demo_db UpdateTask demo_rename)) = 200"
    by (simp add: updateTask_def findOne_def save_assigned_def save_def update_fields_def
        dueDate_validator_def demo_db_def demo_rename_def demo_request_def demo_task_def Let_def)
  show ?thesis
    using task_operations_scoped [OF d, of ToggleTask dueDate_validator 50 demo_foreign]
      task_operations_scoped [OF d, of AddSubTask dueDate_validator 50 demo_subtask]
      task_operations_scoped [OF d, of UpdateTask dueDate_validator 50 demo_rename] n p t e u
    by simp
qed

text \<open>
  C5 as stated fails: with no task at all, \<^verbatim>\<open>getTask\<close> with a malformed id and
  \<^verbatim>\<open>addSubTask\<close> with a title that consists of a no-break space answer 400, and
  \<^verbatim>\<open>addSubTask\<close> with the number 5 as the title answers 500, not 404.
\<close>

theorem task_not_found_counterexample:
  "no_own_task [] (demo_request\<lparr>params_id := None\<rparr>) \<and>
   status (fst (handle dueDate_validator 50 [] GetTask (demo_request\<lparr>params_id := None\<rparr>))) = 400 \<and>
   no_own_task [] (demo_request\<lparr>body_title := Value [0xA0]\<rparr>) \<and>
   status (fst (handle dueDate_validator 50 [] AddSubTask
     (demo_request\<lparr>body_title := Value [0xA0]\<rparr>))) = 400 \<and>
   no_own_task [] demo_subtask_number \<and>
   status (fst (handle dueDate_validator 50 [] AddSubTask demo_subtask_number)) = 500"
  by (simp add: no_own_task_def getTask_def addSubTask_def demo_request_def trim_def
      is_space_def demo_subtask_number_def demo_foreign_def)

subsection \<open>Completion flag and completion date\<close>

lemma fold_max_ge: "(x::nat) \<in> set xs \<Longrightarrow> x \<le> fold max xs a"
proof (induction xs arbitrary: a)
  case Nil
  then show ?case by simp
next
  case (Cons y ys)
  have mono: "b \<le> fold max ys b" for b :: nat
    by (induction ys arbitrary: b) (auto intro: order_trans [OF max.cobounded2])
  show ?case
  proof (cases "x = y")
    case True
    then show ?thesis using mono [of "max y a"] by simp
  next
    case False
    then show ?thesis using Cons by simp
  qed
qed

lemma fresh_id_fresh: "fresh_id db \<notin> set (map task_id db)"
proof
  assume "fresh_id db \<in> set (map task_id db)"
  then have "fresh_id db \<le> fold max (map task_id db) 0" by (rule fold_max_ge)
  then show False by (simp add: fresh_id_def)
qed

lemma save_ids:
  assumes "save V now db loaded this = Inr (t', db')" "task_id this = task_id loaded"
    "loaded \<in> set db"
  shows "map task_id db' = map task_id db"
proof -
  have "db' = map (\<lambda>t. if task_id t = task_id this then t' else t) db" "task_id t' = task_id this"
    using save_Inr [OF assms(1)] by simp_all
  then show ?thesis by (simp add: comp_def cong: map_cong)
qed

lemma save_new_Inr:
  assumes "save_new V now db this = Inr (t', db')"
  shows "t' = this" "db' = db @ [this]"
  using assms by (auto simp: save_new_def pre_save_def Let_def split: list.splits)

lemma createTask_db:
  "snd (createTask V now db req) = db \<or>
   (\<exists>t. snd (createTask V now db req) = db @ [t] \<and> task_id t = fresh_id db \<and>
      isDone t = False \<and> completedAt t = None)"
proof -
  { fix t assume "save_new V now db t = Inl CastError"
    then have False by (simp add: save_new_def Let_def split: list.splits) }
  then show ?thesis
    by (auto simp: createTask_def Let_def split: sum.splits mongoose_error.splits option.splits
        dest!: save_new_Inr)
qed

lemma saving_db:
  assumes "r = (case save V now db task this of
          Inr (task', db') \<Rightarrow> (Response ok (MessageTask m task'), db')
        | Inl CastError \<Rightarrow> (Response 400 (Message ''Invalid task ID''), db)
        | Inl (ValidationError messages) \<Rightarrow> (Response bad (pl messages), db))"
  shows "snd r = db \<or> (\<exists>t'. save V now db task this = Inr (t', snd r))"
  using assms by (auto split: sum.splits mongoose_error.splits)

lemma handle_db:
  "snd (handle V now db op req) = db \<or>
   (\<exists>t. snd (handle V now db op req) = db @ [t] \<and> task_id t = fresh_id db \<and>
      isDone t = False \<and> completedAt t = None) \<or>
   (\<exists>t. t \<in> set db \<and> snd (handle V now db op req) = remove1 t db) \<or>
   (\<exists>loaded this t'. loaded \<in> set db \<and> task_id this = task_id loaded \<and>
      completedAt this = completedAt loaded \<and>
      save V now db loaded this = Inr (t', snd (handle V now db op req)))"
proof (cases op)
  case CreateTask
  then show ?thesis using createTask_db [of V now db req] by auto
next
  case GetTask
  then show ?thesis by simp
next
  case DeleteTask
  then show ?thesis
    by (auto simp: deleteTask_def findOneAndDelete_def split: option.splits dest: findOne_Some)
next
  case UpdateTask
  show ?thesis
  proof (cases "params_id req")
    case None
    then show ?thesis using UpdateTask by (simp add: updateTask_def)
  next
    case (Some i)
    show ?thesis
    proof (cases "findOne db i (user_id req)")
      case None
      then show ?thesis using UpdateTask Some by (simp add: updateTask_def)
    next
      case (Some task)
      have "snd (updateTask V now db req) = db \<or>
          (\<exists>t'. save V now db task (fst (update_fields req task)) =
             Inr (t', snd (updateTask V now db req)))"
      proof (cases "snd (update_fields req task)")
        case Nil
        show ?thesis
          by (rule saving_db [where ok = 200 and bad = 400 and m = "''Task updated successfully''"
                and pl = "MessageErrors ''Validation error''"])
             (simp add: updateTask_def save_assigned_def Nil Some \<open>params_id req = Some i\<close>)
      next
        case (Cons e es)
        then show ?thesis
          using Some \<open>params_id req = Some i\<close> by (simp add: updateTask_def save_assigned_def)
      qed
      then show ?thesis
        using UpdateTask findOne_Some [OF Some] update_fields_ids(1,3) [of req task]
        by (metis handle.simps(3))
    qed
  qed
next
  case ToggleTask
  show ?thesis
  proof (cases "params_id req")
    case None
    then show ?thesis using ToggleTask by (simp add: toggleTask_def)
  next
    case (Some i)
    show ?thesis
    proof (cases "findOne db i (user_id req)")
      case None
      then show ?thesis using ToggleTask Some by (simp add: toggleTask_def)
    next
      case (Some task)
      have "snd (toggleTask V now db req) = db \<or>
          (\<exists>t'. save V now db task (task\<lparr>isDone := \<not> isDone task\<rparr>) =
             Inr (t', snd (toggleTask V now db req)))"
        using Some \<open>params_id req = Some i\<close>
        by (auto simp: toggleTask_def toggleCompletion_def split: sum.splits mongoose_error.splits)
      moreover have "task_id (task\<lparr>isDone := \<not> isDone task\<rparr>) = task_id task"
        "completedAt (task\<lparr>isDone := \<not> isDone task\<rparr>) = completedAt task" by simp_all
      ultimately show ?thesis
        using ToggleTask findOne_Some [OF Some] by (metis handle.simps(5))
    qed
  qed
next
  case AddSubTask
  show ?thesis
  proof (cases "nonblank_string (body_title req)")
    case False
    then show ?thesis
      using AddSubTask by (auto simp: addSubTask_def title_accepted split: option.splits)
  next
    case True
    then obtain x where x: "truthy_value (body_title req)" "call_trim (body_title req) = Some x"
        "x \<noteq> []"
      by (auto simp: title_accepted)
    show ?thesis
    proof (cases "params_id req")
      case None
      then show ?thesis using AddSubTask x by (simp add: addSubTask_def)
    next
      case (Some i)
      show ?thesis
      proof (cases "findOne db i (user_id req)")
        case None
        then show ?thesis using AddSubTask Some x by (simp add: addSubTask_def)
      next
        case (Some task)
        define this where "this = task\<lparr>subTasks := subTasks task @
                [\<lparr>st_title = trim x, st_isDone = False, st_createdAt = now\<rparr>]\<rparr>"
        have "snd (addSubTask V now db req) = db \<or>
            (\<exists>t'. save V now db task this = Inr (t', snd (addSubTask V now db req)))"
          using Some \<open>params_id req = Some i\<close> x
          by (auto simp: addSubTask_def addSubTask_method_def this_def
              split: sum.splits mongoose_error.splits)
        moreover have "task_id this = task_id task" "completedAt this = completedAt task"
          by (simp_all add: this_def)
        ultimately show ?thesis
          using AddSubTask findOne_Some [OF Some] by (metis handle.simps(6))
      qed
    qed
  qed
qed

lemma save_inv:
  assumes "task_inv loaded" "completedAt this = completedAt loaded"
    "save V now db loaded this = Inr (t', db')"
  shows "task_inv t'"
  using assms
  by (auto simp: save_def pre_save_def task_inv_def Let_def split: list.splits if_splits)

lemma handle_inv:
  assumes "\<forall>t\<in>set db. task_inv t"
  shows "\<forall>t\<in>set (snd (handle V now db op req)). task_inv t"
proof -
  consider "snd (handle V now db op req) = db"
    | t where "snd (handle V now db op req) = db @ [t]" "isDone t = False" "completedAt t = None"
    | t where "snd (handle V now db op req) = remove1 t db"
    | loaded this t' where "loaded \<in> set db" "completedAt this = completedAt loaded"
        "save V now db loaded this = Inr (t', snd (handle V now db op req))"
    using handle_db [of V now db op req] by blast
  then show ?thesis
  proof cases
    case 1
    then show ?thesis using assms by simp
  next
    case 2
    then show ?thesis using assms by (simp add: task_inv_def)
  next
    case 3
    then show ?thesis using assms by (auto dest: notin_set_remove1)
  next
    case 4
    have "task_inv t'"
      using save_inv [OF _ 4(2,3)] assms 4(1) by simp
    moreover have "snd (handle V now db op req) =
        map (\<lambda>t. if task_id t = task_id this then t' else t) db"
      using save_Inr(4) [OF 4(3)] .
    ultimately show ?thesis using assms by auto
  qed
qed

lemma handle_distinct:
  assumes "distinct (map task_id db)"
  shows "distinct (map task_id (snd (handle V now db op req)))"
proof -
  consider "snd (handle V now db op req) = db"
    | t where "snd (handle V now db op req) = db @ [t]" "task_id t = fresh_id db"
    | t where "snd (handle V now db op req) = remove1 t db"
    | loaded this t' where "loaded \<in> set db" "task_id this = task_id loaded"
        "save V now db loaded this = Inr (t', snd (handle V now db op req))"
    using handle_db [of V now db op req] by blast
  then show ?thesis
  proof cases
    case 1
    then show ?thesis using assms by simp
  next
    case 2
    then show ?thesis using assms fresh_id_fresh [of db] by simp
  next
    case 3
    then show ?thesis using assms by (simp add: distinct_map distinct_remove1 inj_on_def)
  next
    case 4
    then show ?thesis using assms save_ids [OF 4(3,2,1)] by simp
  qed
qed

lemma reachable_inv: "reachable V db \<Longrightarrow> \<forall>t\<in>set db. task_inv t"
  by (induction rule: reachable.induct) (simp_all add: handle_inv)

lemma reachable_distinct: "reachable V db \<Longrightarrow> distinct (map task_id db)"
  by (induction rule: reachable.induct) (simp_all add: handle_distinct)

lemma toggleCompletion_isDone:
  "toggleCompletion V now db t = Inr (t', db') \<Longrightarrow> isDone t' = (\<not> isDone t)"
  using save_Inr(3) [of V now db t "t\<lparr>isDone := \<not> isDone t\<rparr>" t' db']
  by (simp add: toggleCompletion_def)

lemma toggleCompletion_total:
  "V now (t\<lparr>isDone := \<not> isDone t\<rparr>) = [] \<Longrightarrow> \<exists>r. toggleCompletion V now db t = Inr r"
  by (simp add: toggleCompletion_def save_def Let_def)

lemma save_completedAt:
  "save V now db loaded this = Inr (s, db2) \<Longrightarrow> \<not> isDone loaded \<Longrightarrow> isDone this \<Longrightarrow>
   completedAt this = None \<Longrightarrow> completedAt s = Some now"
  by (auto simp: save_def pre_save_def Let_def split: list.splits if_splits)

lemma toggleTask_ok:
  assumes "toggleTask V now db req = (Response 200 (MessageTask m t'), db')"
  shows "\<exists>t\<in>set db. task_id t = task_id t' \<and> userId t = user_id req \<and>
      isDone t' = (\<not> isDone t) \<and> t' \<in> set db'"
proof -
  obtain i task where i: "params_id req = Some i" and f: "findOne db i (user_id req) = Some task"
    and tc: "toggleCompletion V now db task = Inr (t', db')"
    using assms
    by (auto simp: toggleTask_def split: option.splits sum.splits mongoose_error.splits)
  have s: "save V now db task (task\<lparr>isDone := \<not> isDone task\<rparr>) = Inr (t', db')"
    using tc by (simp add: toggleCompletion_def)
  have mem: "task \<in> set db" "userId task = user_id req"
    using findOne_Some [OF f] by simp_all
  have "db' = map (\<lambda>t. if task_id t = task_id task then t' else t) db" "task_id t' = task_id task"
    using save_Inr [OF s] by simp_all
  then have "t' \<in> set db'" using mem(1) by force
  then show ?thesis
    using mem toggleCompletion_isDone [OF tc] \<open>task_id t' = task_id task\<close> by auto
qed

text \<open>
  When the validation of the toggled document passes, \<^verbatim>\<open>toggleTask\<close> answers 200 with
  the task, its flag negated, and stores it; two such toggles restore the flag.
\<close>

lemma toggleTask_valid:
  assumes p: "params_id req = Some i" and f: "findOne db i (user_id req) = Some task"
    and v: "V now (task\<lparr>isDone := \<not> isDone task\<rparr>) = []"
  shows "\<exists>t' db'. toggleTask V now db req =
      (Response 200
         (MessageTask (''Task marked as '' @ (if isDone task then ''pending'' else ''completed''))
            t'), db') \<and>
      isDone t' = (\<not> isDone task) \<and> task_id t' = task_id task \<and> t' \<in> set db'"
proof -
  obtain t' db' where tc: "toggleCompletion V now db task = Inr (t', db')"
    using toggleCompletion_total [of V now task db] v by auto
  have s: "save V now db task (task\<lparr>isDone := \<not> isDone task\<rparr>) = Inr (t', db')"
    using tc by (simp add: toggleCompletion_def)
  have d: "isDone t' = (\<not> isDone task)"
    using toggleCompletion_isDone [OF tc] .
  have "db' = map (\<lambda>t. if task_id t = task_id task then t' else t) db" "task_id t' = task_id task"
    using save_Inr [OF s] by simp_all
  moreover have "task \<in> set db"
    using findOne_Some [OF f] by simp
  ultimately have "t' \<in> set db'" "task_id t' = task_id task" by force+
  then show ?thesis
    using p f tc d by (simp add: toggleTask_def)
qed

lemma toggle_twice:
  assumes "toggleCompletion V now db t = Inr (t', db')"
    "toggleCompletion V now2 db' t' = Inr (t'', db'')"
  shows "isDone t'' = isDone t"
  using toggleCompletion_isDone [OF assms(1)] toggleCompletion_isDone [OF assms(2)] by simp

text \<open>
  A task that is due at or before the time of the request cannot be toggled: \<^verbatim>\<open>save\<close>
  validates the document, the validator of \<^verbatim>\<open>dueDate\<close> requires a date in the future,
  \<^verbatim>\<open>toggleTask\<close> answers the \<^verbatim>\<open>ValidationError\<close> with 500, and the collection
  stays as it is. This holds with every validation that reports what the validator of
  \<^verbatim>\<open>dueDate\<close> reports.
\<close>

lemma overdue_toggle_rejected:
  assumes p: "params_id req = Some i" and f: "findOne db i (user_id req) = Some task"
    and d: "dueDate task = Some due" "due \<le> now"
    and V: "\<And>t. dueDate_validator now t \<noteq> [] \<Longrightarrow> V now t \<noteq> []"
  shows "toggleTask V now db req = (Response 500 (Message ''Server error toggling task''), db)"
proof -
  have "dueDate_validator now (task\<lparr>isDone := \<not> isDone task\<rparr>) \<noteq> []"
    using d by (simp add: dueDate_validator_def)
  then have "V now (task\<lparr>isDone := \<not> isDone task\<rparr>) \<noteq> []"
    by (rule V)
  then obtain m ms where "V now (task\<lparr>isDone := \<not> isDone task\<rparr>) = m # ms"
    by (cases "V now (task\<lparr>isDone := \<not> isDone task\<rparr>)") auto
  then have "toggleCompletion V now db task = Inl (ValidationError (m # ms))"
    by (simp add: toggleCompletion_def save_def)
  then show ?thesis
    using p f by (simp add: toggleTask_def)
qed

text \<open>
  C8. The claim is that toggling a task's completion negates \<^verbatim>\<open>isDone\<close>. A task is
  created at time 10 with the due date 90 and is not done. Toggled by its owner at time
  50, before it is due, it is stored as done. Toggled instead at time 100, it is not:
  \<^verbatim>\<open>toggleCompletion\<close> negates the flag of the document in memory and calls
  \<^verbatim>\<open>save\<close>, whose validation rejects the due date, which is no longer in the future;
  \<^verbatim>\<open>toggleTask\<close> answers 500 and the stored task is as it was, not done.
\<close>

theorem toggleTask_overdue:
  "handle dueDate_validator 10 [] CreateTask demo_create =
     (Response 201 (MessageTask ''Task created successfully'' demo_created), [demo_created]) \<and>
   isDone demo_created = False \<and> dueDate demo_created = Some 90 \<and>
   handle dueDate_validator 50 [demo_created] ToggleTask demo_request =
     (Response 200 (MessageTask ''Task marked as completed'' demo_done), [demo_done]) \<and>
   isDone demo_done = True \<and>
   toggleCompletion dueDate_validator 100 [demo_created] demo_created =
     Inl (ValidationError [''Due date must be in the future'']) \<and>
   handle dueDate_validator 100 [demo_created] ToggleTask demo_request =
     (Response 500 (Message ''Server error toggling task''), [demo_created])"
proof -
  have c: "handle dueDate_validator 10 [] CreateTask demo_create =
     (Response 201 (MessageTask ''Task created successfully'' demo_created), [demo_created])"
    by (simp add: createTask_def save_new_def pre_save_def dueDate_validator_def fresh_id_def
        demo_create_def demo_created_def trim_def is_space_def str_def Let_def)
  have f: "findOne [demo_created] 1 7 = Some demo_created"
    by (simp add: findOne_def demo_created_def)
  have t: "toggleCompletion dueDate_validator 50 [demo_created] demo_created =
      Inr (demo_done, [demo_done])"
    by (simp add: toggleCompletion_def save_def pre_save_def dueDate_validator_def
        demo_created_def demo_done_def Let_def)
  have d: "isDone demo_done = True" "isDone demo_created = False" "dueDate demo_created = Some 90"
    by (simp_all add: demo_done_def demo_created_def)
  have l: "toggleCompletion dueDate_validator 100 [demo_created] demo_created =
      Inl (ValidationError [''Due date must be in the future''])"
    by (simp add: toggleCompletion_def save_def dueDate_validator_def demo_created_def)
  show ?thesis
    using c d l t f by (simp add: toggleTask_def demo_request_def)
qed

text \<open>
  A second toggle before the due date restores the flag and clears the completion date.
\<close>

lemma toggle_before_due:
  "toggleCompletion dueDate_validator 50 [demo_created] demo_created =
     Inr (demo_done, [demo_done]) \<and>
   isDone demo_done = (\<not> isDone demo_created) \<and> completedAt demo_done = Some 50 \<and>
   toggleCompletion dueDate_validator 60 [demo_done] demo_done =
     Inr (demo_undone, [demo_undone]) \<and>
   isDone demo_undone = isDone demo_created \<and> completedAt demo_undone = None"
  by (simp add: toggleCompletion_def save_def pre_save_def dueDate_validator_def
      demo_created_def demo_done_def demo_undone_def Let_def)

subsection \<open>Routes behind the auth middleware\<close>

lemma dispatch_taskRoutes:
  "dispatch mw taskRoutes m path req =
     (case mw Auth req of
        Inl res \<Rightarrow> Responded res
      | Inr req' \<Rightarrow> dispatch mw (tl taskRoutes) m path req')"
  by (cases "mw Auth req") (simp_all add: taskRoutes_def)

lemma dispatch_no_middleware:
  "\<forall>l\<in>set layers. \<exists>m p h. l = Route m p [] h \<Longrightarrow>
   dispatch mw layers m path req = Handled h req' \<Longrightarrow> req' = req"
proof (induction layers)
  case Nil
  then show ?case by simp
next
  case (Cons l layers)
  then obtain m' p h' where l: "l = Route m' p [] h'" by auto
  show ?case
    using Cons l by (auto split: if_splits)
qed

lemma taskRoutes_handled:
  assumes "dispatch mw taskRoutes m path req = Handled h req'"
  shows "mw Auth req = Inr req'"
proof (cases "mw Auth req")
  case (Inl res)
  then show ?thesis using assms by (simp add: dispatch_taskRoutes)
next
  case (Inr r)
  then have "dispatch mw (tl taskRoutes) m path r = Handled h req'"
    using assms by (simp add: dispatch_taskRoutes)
  then have "req' = r"
    by (rule dispatch_no_middleware [rotated]) (simp add: taskRoutes_def)
  then show ?thesis using Inr by simp
qed

lemma taskRoutes_rejected:
  "mw Auth req = Inl res \<Longrightarrow> dispatch mw taskRoutes m path req = Responded res"
  by (simp add: dispatch_taskRoutes)

lemma literal_lower:
  "ascii_toLowerCase (str ''register'') = str ''register''"
  "ascii_toLowerCase (str ''login'') = str ''login''"
  "ascii_toLowerCase (str ''me'') = str ''me''"
  "ascii_toLowerCase (str ''profile'') = str ''profile''"
  "ascii_toLowerCase (str ''verify'') = str ''verify''"
  by (simp_all add: ascii_toLowerCase_def str_def)

lemma authRoutes_private:
  assumes "dispatch mw authRoutes m path req = Handled h req'"
    and "h \<in> {GetProfile, UpdateProfile, VerifyToken}"
  shows "mw Auth req = Inr req'"
proof (cases path)
  case Nil
  then show ?thesis using assms by (simp add: authRoutes_def)
next
  case (Cons x xs)
  define k where "k = ascii_toLowerCase x"
  have k: "ascii_toLowerCase x = k" by (simp add: k_def)
  show ?thesis
  proof (cases "k = str ''me'' \<or> k = str ''profile'' \<or> k = str ''verify''")
    case True
    then show ?thesis
      using assms unfolding Cons authRoutes_def
      by (cases xs)
         (auto simp: k literal_lower eq_commute [of "str _" k] split: if_splits sum.splits)
  next
    case False
    then show ?thesis
      using assms unfolding Cons authRoutes_def
      by (cases xs)
         (auto simp: k literal_lower eq_commute [of "str _" k] split: if_splits sum.splits)
  qed
qed

lemma on_response_error_401:
  assumes "response_status error = Some 401"
  shows "localStorage (on_response_error b error) ''token'' = None"
    "localStorage (on_response_error b error) ''user'' = None"
    "location_href (on_response_error b error) = ''/login''"
  using assms by (simp_all add: on_response_error_def toast_error_def)

text \<open>
  C6. On the task router a handler runs only on a request the auth middleware has passed
  on, and what the middleware answers instead is the answer of the router; the same holds
  for the three private routes of the auth router. When the status of a response is 401,
  the client removes the token and the user from local storage and sets the location to
  the login page.
\<close>

theorem routes_authenticated:
  "(dispatch mw taskRoutes m path req = Handled h req' \<longrightarrow> mw Auth req = Inr req') \<and>
   (mw Auth req = Inl res \<longrightarrow> dispatch mw taskRoutes m path req = Responded res) \<and>
   (dispatch mw authRoutes m path req = Handled h req' \<and>
      h \<in> {GetProfile, UpdateProfile, VerifyToken} \<longrightarrow> mw Auth req = Inr req') \<and>
   (response_status error = Some 401 \<longrightarrow>
      localStorage (on_response_error b error) ''token'' = None \<and>
      localStorage (on_response_error b error) ''user'' = None \<and>
      location_href (on_response_error b error) = ''/login'')"
  using taskRoutes_handled [of mw m path req h req'] taskRoutes_rejected [of mw req res m path]
    authRoutes_private [of mw m path req h req'] on_response_error_401 [of error b]
  by blast

text \<open>
  An instance, with a middleware that accepts one token and answers 401 to every other.
\<close>

theorem routes_authenticated_witness:
  "dispatch demo_mw taskRoutes PATCH [str ''42'', str ''toggle''] ''valid'' =
     Handled ToggleTaskH ''valid'' \<and>
   demo_mw Auth ''valid'' = Inr ''valid'' \<and>
   dispatch demo_mw taskRoutes PATCH [str ''42'', str ''toggle''] ''expired'' =
     Responded (Response 401 (Message ''Token is not valid'')) \<and>
   dispatch demo_mw authRoutes GET [str ''me''] ''valid'' = Handled GetProfile ''valid'' \<and>
   localStorage (on_response_error demo_browser
      \<lparr>response_status = Some 401, response_message = Some ''Token is not valid'',
        error_code = None\<rparr>) ''token'' = None \<and>
   localStorage (on_response_error demo_browser
      \<lparr>response_status = Some 401, response_message = Some ''Token is not valid'',
        error_code = None\<rparr>) ''theme'' = Some ''dark'' \<and>
   location_href (on_response_error demo_browser
      \<lparr>response_status = Some 401, response_message = Some ''Token is not valid'',
        error_code = None\<rparr>) = ''/login''"
proof -
  have a: "dispatch demo_mw taskRoutes PATCH [str ''42'', str ''toggle''] ''valid'' =
      Handled ToggleTaskH ''valid''"
    by (simp add: taskRoutes_def demo_mw_def ascii_toLowerCase_def str_def)
  have b: "demo_mw Auth ''expired'' = Inl (Response 401 (Message ''Token is not valid''))"
    by (simp add: demo_mw_def)
  have c: "dispatch demo_mw authRoutes GET [str ''me''] ''valid'' = Handled GetProfile ''valid''"
    by (simp add: authRoutes_def demo_mw_def ascii_toLowerCase_def str_def)
  have d: "localStorage (on_response_error demo_browser
      \<lparr>response_status = Some 401, response_message = Some ''Token is not valid'',
        error_code = None\<rparr>) ''theme'' = Some ''dark''"
    by (simp add: on_response_error_def toast_error_def demo_browser_def)
  show ?thesis
    using routes_authenticated [where mw = demo_mw and m = PATCH
        and path = "[str ''42'', str ''toggle'']"
        and req = "''valid''" and h = ToggleTaskH and req' = "''valid''" and b = demo_browser
        and error = "\<lparr>response_status = Some 401, response_message = Some ''Token is not valid'',
          error_code = None\<rparr>"]
      routes_authenticated [where mw = demo_mw and m = PATCH
        and path = "[str ''42'', str ''toggle'']"
        and req = "''expired''" and res = "Response 401 (Message ''Token is not valid'')"]
      a b c d
    by simp
qed

text \<open>
  The routes match without regard to case, and are behind the middleware in every
  spelling.
\<close>

lemma routes_ignore_case:
  "dispatch demo_mw taskRoutes PATCH [str ''42'', str ''TOGGLE''] ''valid'' =
     Handled ToggleTaskH ''valid'' \<and>
   dispatch demo_mw taskRoutes GET [str ''Overdue''] ''expired'' =
     Responded (Response 401 (Message ''Token is not valid'')) \<and>
   dispatch demo_mw authRoutes GET [str ''ME''] ''expired'' =
     Responded (Response 401 (Message ''Token is not valid''))"
  by (simp add: taskRoutes_def authRoutes_def demo_mw_def ascii_toLowerCase_def str_def)

end
